theory Spec2Isabelle
  imports Main "HOL-Library.Word" "HOL-Library.List_Lexorder"
begin

section \<open>JavaScript strings\<close>

text \<open>
  A JavaScript string is a sequence of UTF-16 code units. The default comparison of
  strings (the one \<^verbatim>\<open>Array.prototype.sort\<close> uses without a comparator) is the
  lexicographic order of the code units, a proper prefix being smaller: this is the order
  \<open>HOL-Library.List_Lexorder\<close> puts on lists of \<open>16 word\<close>.
\<close>

type_synonym jschar = "16 word"
type_synonym jsstring = "jschar list"

text \<open>The literals of the source are ASCII; \<open>str\<close> reads one as code units.\<close>

definition str :: "string \<Rightarrow> jsstring" where
  "str s = map of_char s"

text \<open>
  The code units that \<^verbatim>\<open>String.prototype.trim\<close> removes and that \<^verbatim>\<open>\s\<close> matches in a
  regular expression: ECMAScript's WhiteSpace and LineTerminator.
\<close>

definition isWhiteSpace :: "jschar \<Rightarrow> bool" where
  "isWhiteSpace c \<longleftrightarrow>
     c \<in> set [0x9, 0xA, 0xB, 0xC, 0xD, 0x20, 0xA0, 0x1680,
               0x2000, 0x2001, 0x2002, 0x2003, 0x2004, 0x2005, 0x2006, 0x2007,
               0x2008, 0x2009, 0x200A, 0x2028, 0x2029, 0x202F, 0x205F, 0x3000, 0xFEFF]"

definition trim :: "jsstring \<Rightarrow> jsstring" where
  "trim s = rev (dropWhile isWhiteSpace (rev (dropWhile isWhiteSpace s)))"

definition endsWith :: "jsstring \<Rightarrow> jsstring \<Rightarrow> bool" where
  "endsWith s suf \<longleftrightarrow> length suf \<le> length s \<and> drop (length s - length suf) s = suf"

text \<open>
  \<^verbatim>\<open>filename.replace(/\.html$/, '')\<close>: without the \<^verbatim>\<open>m\<close> flag \<^verbatim>\<open>$\<close> matches at the end
  of the input only, so the one possible match is a final \<^verbatim>\<open>.html\<close>.
\<close>

definition stripHtml :: "jsstring \<Rightarrow> jsstring" where
  "stripHtml filename =
     (if endsWith filename (str ''.html'')
      then take (length filename - length (str ''.html'')) filename
      else filename)"

section \<open>auto-index.js: data\<close>

text \<open>The object literal \<^verbatim>\<open>{ filename, category, slug, content }\<close> of the fetch step.\<close>

record article =
  filename :: jsstring
  category :: jsstring
  slug :: jsstring
  content :: jsstring

text \<open>
  What the mapper reads of the document \<^verbatim>\<open>DOMParser\<close> returns:
  \<^item> \<open>metaCategory\<close>: \<^verbatim>\<open>querySelector('meta[name="category"]')\<close>, \<open>None\<close> when no element
    matches, otherwise the \<^verbatim>\<open>content\<close> of the first match (the empty string when the
    element has no such attribute);
  \<^item> \<open>paragraphs\<close>: the \<^verbatim>\<open>textContent\<close> of every element of \<^verbatim>\<open>querySelectorAll('p')\<close>,
    in document order.
\<close>

record document =
  metaCategory :: "jsstring option"
  paragraphs :: "jsstring list"

text \<open>
  How one retrieval ends: the promise of \<^verbatim>\<open>fetch\<close> (or of \<^verbatim>\<open>res.text()\<close>) rejects with
  an error, or there is a response with its \<^verbatim>\<open>ok\<close> flag, its status and its parsed body.
\<close>

datatype js_error = NetworkError jsstring | TypeError jsstring

datatype fetch_outcome =
    FetchRejects js_error
  | Response bool nat document

datatype level = LOG | WARN | ERROR

datatype message =
    NoArticlesFound
  | FoundArticles nat "jsstring list"
  | FailedToFetch jsstring nat
  | AutoInject jsstring jsstring
  | MainContainerNotFound
  | BuiltSuccessfully
  | ErrorBuilding js_error

type_synonym console_entry = "level \<times> message"

text \<open>A settled promise, and a promise that may still be pending.\<close>

datatype 'a settled = Rejects js_error | Fulfils 'a

datatype 'a promise = Pending | Rejected js_error | Fulfilled 'a

section \<open>auto-index.js: the fetch step\<close>

text \<open>The \<^verbatim>\<open>for (const p of paragraphs)\<close> loop; \<open>[]\<close> is the initial \<^verbatim>\<open>content = ''\<close>.\<close>

fun firstParagraph :: "jsstring list \<Rightarrow> jsstring" where
  "firstParagraph [] = []"
| "firstParagraph (p # ps) =
     (let text = trim p in if length text > 0 then text else firstParagraph ps)"

text \<open>
  The asynchronous function mapped over \<^verbatim>\<open>htmlFiles\<close>, given how the retrieval of its
  file ends: what it writes to the console and how its promise settles (\<open>None\<close> is
  \<^verbatim>\<open>null\<close>).
\<close>

fun fetchArticle :: "jsstring \<Rightarrow> fetch_outcome \<Rightarrow> console_entry list \<times> article option settled" where
  "fetchArticle fname (FetchRejects e) = ([], Rejects e)"
| "fetchArticle fname (Response ok status doc) =
     (if \<not> ok then ([(WARN, FailedToFetch fname status)], Fulfils None)
      else
        let (category, out) =
              (case metaCategory doc of
                 Some c \<Rightarrow>
                   if length (trim c) > 0 then (trim c, [])
                   else (str ''others'', [(LOG, AutoInject fname (str ''others''))])
               | None \<Rightarrow> (str ''others'', [(LOG, AutoInject fname (str ''others''))]));
            content = firstParagraph (paragraphs doc);
            content = (if content = [] then stripHtml fname else content);
            slug = stripHtml fname
        in (out, Fulfils (Some \<lparr>filename = fname, category = category, slug = slug,
                                 content = content\<rparr>)))"

section \<open>auto-index.js: joining the fetches\<close>

text \<open>
  \<^verbatim>\<open>Promise.all\<close> over the mapped promises. The list \<open>sched\<close> is the order in which the
  promises settle (positions in the input array). As in ECMAScript, the value of a
  fulfilled promise is stored at the position of that promise, the result is delivered
  once no position is empty, and the first rejection rejects the whole. A position that
  does not exist or has settled already is passed over, and when the order ends before
  every promise has settled the result stays pending. \<open>out\<close> collects what the mappers
  wrote to the console up to the moment the joined promise settles.
\<close>

fun promiseAll :: "(console_entry list \<times> 'a settled) list \<Rightarrow> nat list \<Rightarrow> 'a option list \<Rightarrow>
    console_entry list \<Rightarrow> console_entry list \<times> 'a list promise" where
  "promiseAll ps [] vals out = (out, Pending)"
| "promiseAll ps (i # sched) vals out =
     (if i \<ge> length ps \<or> vals ! i \<noteq> None then promiseAll ps sched vals out
      else case ps ! i of
             (l, Rejects e) \<Rightarrow> (out @ l, Rejected e)
           | (l, Fulfils v) \<Rightarrow>
               let vals = vals[i := Some v]
               in if None \<notin> set vals then (out @ l, Fulfilled (map the vals))
                  else promiseAll ps sched vals (out @ l))"

section \<open>auto-index.js: grouping by category\<close>

text \<open>
  \<^verbatim>\<open>categories\<close> starts as the object literal \<^verbatim>\<open>{}\<close>, whose prototype is
  \<^verbatim>\<open>Object.prototype\<close>: reading \<^verbatim>\<open>categories[k]\<close> for a key that is not an own property
  finds what \<^verbatim>\<open>Object.prototype\<close> has under that name. Its properties are the functions
  below and the accessor \<^verbatim>\<open>__proto__\<close>; each value is truthy and none has a \<^verbatim>\<open>push\<close>.
  The own properties are kept in insertion order.
\<close>

type_synonym postMap = "(jsstring \<times> article list) list"

definition objectPrototypeKeys :: "jsstring list" where
  "objectPrototypeKeys = map str
     [''constructor'', ''hasOwnProperty'', ''isPrototypeOf'', ''propertyIsEnumerable'',
      ''toLocaleString'', ''toString'', ''valueOf'', ''__proto__'',
      ''__defineGetter__'', ''__defineSetter__'', ''__lookupGetter__'', ''__lookupSetter__'']"

datatype property = Undefined | Inherited | Own "article list"

definition getProperty :: "postMap \<Rightarrow> jsstring \<Rightarrow> property" where
  "getProperty obj k =
     (case map_of obj k of
        Some v \<Rightarrow> Own v
      | None \<Rightarrow> if k \<in> set objectPrototypeKeys then Inherited else Undefined)"

fun setOwn :: "postMap \<Rightarrow> jsstring \<Rightarrow> article list \<Rightarrow> postMap" where
  "setOwn [] k v = [(k, v)]"
| "setOwn ((k', v') # obj) k v = (if k' = k then (k, v) # obj else (k', v') # setOwn obj k v)"

definition pushNotAFunction :: js_error where
  "pushNotAFunction = TypeError (str ''categories[article.category].push is not a function'')"

text \<open>
  The body of \<^verbatim>\<open>validArticles.forEach\<close>: create the bucket when the lookup is falsy, then
  push. An array is truthy even when empty; an inherited value is truthy too, so no bucket
  is created for it and the call of its missing \<^verbatim>\<open>push\<close> throws a TypeError (the wording of
  the message is the engine's).
\<close>

definition addArticle :: "postMap \<Rightarrow> article \<Rightarrow> js_error + postMap" where
  "addArticle categories a =
     (let categories =
            (case getProperty categories (category a) of
               Undefined \<Rightarrow> setOwn categories (category a) []
             | _ \<Rightarrow> categories)
      in case getProperty categories (category a) of
           Own bucket \<Rightarrow> Inr (setOwn categories (category a) (bucket @ [a]))
         | _ \<Rightarrow> Inl pushNotAFunction)"

fun groupByCategory :: "postMap \<Rightarrow> article list \<Rightarrow> js_error + postMap" where
  "groupByCategory categories [] = Inr categories"
| "groupByCategory categories (a # as) =
     (case addArticle categories a of
        Inl e \<Rightarrow> Inl e
      | Inr categories \<Rightarrow> groupByCategory categories as)"

section \<open>auto-index.js: buildPostMap\<close>

record site_config =
  postsDir :: jsstring
  postFiles :: "jsstring list"
  title :: jsstring
  subtitle :: jsstring
  description :: jsstring
  githubUrl :: jsstring
  copyrightYear :: jsstring

text \<open>
  \<open>net\<close> tells how the retrieval of a URL ends, \<open>sched\<close> the order in which the mapped
  promises settle. The result is the console output, the URLs requested and the state of
  the promise \<^verbatim>\<open>buildPostMap\<close> returns. Every \<^verbatim>\<open>fetch\<close> is issued while the array is
  mapped, before anything settles.
\<close>

definition buildPostMap :: "site_config \<Rightarrow> (jsstring \<Rightarrow> fetch_outcome) \<Rightarrow> nat list \<Rightarrow>
    console_entry list \<times> jsstring list \<times> postMap promise" where
  "buildPostMap cfg net sched =
     (let htmlFiles = postFiles cfg in
      if length htmlFiles = 0 then ([(WARN, NoArticlesFound)], [], Fulfilled [])
      else
        let found = (LOG, FoundArticles (length htmlFiles) htmlFiles);
            urls = map (\<lambda>fname. postsDir cfg @ fname) htmlFiles;
            mapped = map (\<lambda>fname. fetchArticle fname (net (postsDir cfg @ fname))) htmlFiles;
            (out, articles) = promiseAll mapped sched (replicate (length mapped) None) []
        in case articles of
             Pending \<Rightarrow> (found # out, urls, Pending)
           | Rejected e \<Rightarrow> (found # out, urls, Rejected e)
           | Fulfilled articles \<Rightarrow>
               let validArticles = filter (\<lambda>article. article \<noteq> None) articles
               in (case groupByCategory [] (map the validArticles) of
                     Inl e \<Rightarrow> (found # out, urls, Rejected e)
                   | Inr categories \<Rightarrow> (found # out, urls, Fulfilled categories)))"

section \<open>auto-index.js: rendering\<close>

text \<open>
  The nodes the script creates: a text node, or an element with its tag, its attributes
  and its children. Assigning \<^verbatim>\<open>textContent\<close> leaves one text node, or no child at all for
  the empty string.
\<close>

datatype node = Text jsstring | Element string "(string \<times> jsstring) list" "node list"

definition setTextContent :: "jsstring \<Rightarrow> node list" where
  "setTextContent s = (if s = [] then [] else [Text s])"

fun textContent :: "node \<Rightarrow> jsstring" where
  "textContent (Text s) = s"
| "textContent (Element tag attrs kids) = concat (map textContent kids)"

fun tagName :: "node \<Rightarrow> string" where
  "tagName (Text s) = []"
| "tagName (Element tag attrs kids) = tag"

fun childNodes :: "node \<Rightarrow> node list" where
  "childNodes (Text s) = []"
| "childNodes (Element tag attrs kids) = kids"

fun getAttribute :: "node \<Rightarrow> string \<Rightarrow> jsstring option" where
  "getAttribute (Text s) name = None"
| "getAttribute (Element tag attrs kids) name = map_of attrs name"

text \<open>\<^verbatim>\<open>articles.forEach((article, index) => ...)\<close>, appending to the children of \<^verbatim>\<open>dd\<close>.\<close>

definition articleLink :: "site_config \<Rightarrow> article \<Rightarrow> node" where
  "articleLink cfg a = Element ''a'' [(''href'', postsDir cfg @ filename a)] (setTextContent (slug a))"

fun appendLinks :: "site_config \<Rightarrow> nat \<Rightarrow> article list \<Rightarrow> nat \<Rightarrow> node list \<Rightarrow> node list" where
  "appendLinks cfg len [] index dd = dd"
| "appendLinks cfg len (a # as) index dd =
     (let link = articleLink cfg a;
          dd = dd @ [link];
          dd = (if int index < int len - 1 then dd @ [Text (str ''; '')] else dd)
      in appendLinks cfg len as (index + 1) dd)"

definition termNode :: "jsstring \<Rightarrow> node" where
  "termNode cat =
     Element ''dt'' [(''class'', str ''postDt'')] [Element ''strong'' [] (setTextContent cat)]"

definition descriptionNode :: "site_config \<Rightarrow> article list \<Rightarrow> node" where
  "descriptionNode cfg articles =
     Element ''dd'' [(''class'', str ''postDd'')] (appendLinks cfg (length articles) articles 0 [])"

text \<open>
  \<^verbatim>\<open>postMap[category]\<close> for a key that \<^verbatim>\<open>Object.keys\<close> returned is an own property.
  \<^verbatim>\<open>Object.keys\<close> lists the keys in insertion order, except that keys that are array
  indices come first; the \<^verbatim>\<open>sort()\<close> that follows makes that order immaterial.
\<close>

definition bucketOf :: "postMap \<Rightarrow> jsstring \<Rightarrow> article list" where
  "bucketOf postMap cat = (case map_of postMap cat of Some articles \<Rightarrow> articles | None \<Rightarrow> [])"

definition buildCategoryList :: "site_config \<Rightarrow> postMap \<Rightarrow> node" where
  "buildCategoryList cfg postMap =
     (let sortedCategories = sort (map fst postMap)
      in Element ''dl'' [(''class'', str ''category-list'')]
           (concat (map (\<lambda>category. [termNode category, descriptionNode cfg (bucketOf postMap category)])
                        sortedCategories)))"

definition buildHeader :: "site_config \<Rightarrow> node" where
  "buildHeader config =
     Element ''header'' []
       [Element ''h1'' [] (setTextContent (title config)),
        Element ''p'' [] (setTextContent (subtitle config)),
        Element ''p'' [] (setTextContent (description config))]"

definition buildFooter :: "site_config \<Rightarrow> node" where
  "buildFooter config =
     Element ''footer'' []
       [Text ([0xA9] @ str '' '' @ copyrightYear config @ str '' '' @ title config
              @ str ''. All content is available under the ''),
        Element ''a'' [(''href'', str ''https://creativecommons.org/licenses/by-sa/4.0/'')]
          (setTextContent (str ''CC BY-SA 4.0'')),
        Text (str ''. ''),
        Element ''a'' [(''href'', githubUrl config)] (setTextContent (str ''Source on GitHub''))]"

definition createKnowledgeTable :: "site_config \<Rightarrow> postMap \<Rightarrow> node" where
  "createKnowledgeTable cfg postMap =
     Element ''table'' [(''class'', str ''knowledge-table''), (''rules'', str ''cols''),
                        (''cellpadding'', str ''10'')]
       [Element ''tr'' []
          [Element ''td'' [(''class'', str ''shortcuts'')] (setTextContent (str ''shortcuts to do'')),
           Element ''td'' [(''class'', str ''posts'')] [buildCategoryList cfg postMap],
           Element ''td'' [(''class'', str ''language'')] (setTextContent (str ''language to do''))]]"

section \<open>auto-index.js: buildAutoIndex\<close>

text \<open>
  The page as the script sees it: the content of the \<^verbatim>\<open>main\<close> element (\<open>None\<close> when the
  page has none), given either as the markup assigned to \<^verbatim>\<open>innerHTML\<close> or as the nodes
  appended; the console; the URLs requested so far.
\<close>

datatype content = InnerHTML jsstring | ChildNodes "node list"

record page =
  mainContainer :: "content option"
  console :: "console_entry list"
  fetched :: "jsstring list"

fun errorMessage :: "js_error \<Rightarrow> jsstring" where
  "errorMessage (NetworkError m) = m"
| "errorMessage (TypeError m) = m"

definition loadingMarkup :: jsstring where
  "loadingMarkup = str ''<p>Loading knowledge base...</p>''"

definition errorMarkup :: "js_error \<Rightarrow> jsstring" where
  \<open>errorMarkup error =
     str ''<p style="color: red;">Error loading knowledge base: '' @ errorMessage error @ str ''</p>''\<close>

text \<open>
  The page once \<^verbatim>\<open>buildAutoIndex\<close> has nothing left to do: after the early return, after
  the \<^verbatim>\<open>try\<close> or the \<^verbatim>\<open>catch\<close> block, or showing the loading message for ever when
  \<^verbatim>\<open>buildPostMap\<close> never settles.
\<close>

definition buildAutoIndex :: "site_config \<Rightarrow> (jsstring \<Rightarrow> fetch_outcome) \<Rightarrow> nat list \<Rightarrow> page \<Rightarrow> page" where
  "buildAutoIndex cfg net sched pg =
     (case mainContainer pg of
        None \<Rightarrow> pg\<lparr>console := console pg @ [(ERROR, MainContainerNotFound)]\<rparr>
      | Some _ \<Rightarrow>
          let pg = pg\<lparr>mainContainer := Some (InnerHTML loadingMarkup)\<rparr>;
              (out, urls, postMap) = buildPostMap cfg net sched;
              pg = pg\<lparr>console := console pg @ out, fetched := fetched pg @ urls\<rparr>
          in case postMap of
               Pending \<Rightarrow> pg
             | Fulfilled postMap \<Rightarrow>
                 pg\<lparr>mainContainer :=
                      Some (ChildNodes [buildHeader cfg, createKnowledgeTable cfg postMap, buildFooter cfg]),
                    console := console pg @ [(LOG, BuiltSuccessfully)]\<rparr>
             | Rejected error \<Rightarrow>
                 pg\<lparr>console := console pg @ [(ERROR, ErrorBuilding error)],
                    mainContainer := Some (InnerHTML (errorMarkup error))\<rparr>)"

section \<open>auto-toc.js: the document\<close>

text \<open>
  The script works on the page itself, so elements have an identity: a heading found by
  \<^verbatim>\<open>querySelectorAll\<close> is the same object later on, also when it has been detached from
  the document, and \<^verbatim>\<open>getElementById(id) !== heading\<close> compares objects. An element
  carries a number that stands for its identity.
\<close>

datatype enode = CharData jsstring | Elem nat string "(string \<times> jsstring) list" "enode list"

datatype ready_state = Loading | Interactive | Complete

text \<open>
  \<open>root\<close> is the document element, \<open>detached\<close> the subtrees removed from the document
  that the script still holds references into, \<open>nextNode\<close> the identity of the next
  element created, \<open>listening\<close> whether \<^verbatim>\<open>generateTOC\<close> is registered for
  \<^verbatim>\<open>DOMContentLoaded\<close>.
\<close>

record tocDocument =
  readyState :: ready_state
  listening :: bool
  root :: enode
  detached :: "enode list"
  nextNode :: nat

fun nodeIdOf :: "enode \<Rightarrow> nat option" where
  "nodeIdOf (CharData s) = None"
| "nodeIdOf (Elem i tag attrs kids) = Some i"

fun tagOf :: "enode \<Rightarrow> string" where
  "tagOf (CharData s) = []"
| "tagOf (Elem i tag attrs kids) = tag"

fun attributesOf :: "enode \<Rightarrow> (string \<times> jsstring) list" where
  "attributesOf (CharData s) = []"
| "attributesOf (Elem i tag attrs kids) = attrs"

fun kidsOf :: "enode \<Rightarrow> enode list" where
  "kidsOf (CharData s) = []"
| "kidsOf (Elem i tag attrs kids) = kids"

text \<open>The \<^verbatim>\<open>id\<close> property: the value of the attribute, or the empty string.\<close>

definition idOf :: "enode \<Rightarrow> jsstring" where
  "idOf n = (case map_of (attributesOf n) ''id'' of Some v \<Rightarrow> v | None \<Rightarrow> [])"

text \<open>The elements of a subtree in tree order, and \<^verbatim>\<open>textContent\<close>.\<close>

fun elements :: "enode \<Rightarrow> enode list" where
  "elements (CharData s) = []"
| "elements (Elem i tag attrs kids) = Elem i tag attrs kids # concat (map elements kids)"

fun textOf :: "enode \<Rightarrow> jsstring" where
  "textOf (CharData s) = s"
| "textOf (Elem i tag attrs kids) = concat (map textOf kids)"

definition querySelectorAll :: "enode \<Rightarrow> string \<Rightarrow> enode list" where
  "querySelectorAll r tag = filter (\<lambda>e. tagOf e = tag) (elements r)"

text \<open>\<^verbatim>\<open>document.getElementById\<close>: the first element in tree order with that id.\<close>

definition getElementById :: "enode \<Rightarrow> jsstring \<Rightarrow> enode option" where
  "getElementById r ident = (if ident = [] then None else find (\<lambda>e. idOf e = ident) (elements r))"

text \<open>A change made to the element with a given identity, wherever it is in a subtree.\<close>

fun updateNode :: "nat \<Rightarrow> (enode \<Rightarrow> enode) \<Rightarrow> enode \<Rightarrow> enode" where
  "updateNode i f (CharData s) = CharData s"
| "updateNode i f (Elem j tag attrs kids) =
     (if i = j then f (Elem j tag attrs kids)
      else Elem j tag attrs (map (updateNode i f) kids))"

definition updateEverywhere :: "nat \<Rightarrow> (enode \<Rightarrow> enode) \<Rightarrow> tocDocument \<Rightarrow> tocDocument" where
  "updateEverywhere i f doc =
     doc\<lparr>root := updateNode i f (root doc), detached := map (updateNode i f) (detached doc)\<rparr>"

definition lookupNode :: "tocDocument \<Rightarrow> nat \<Rightarrow> enode option" where
  "lookupNode doc i =
     find (\<lambda>e. nodeIdOf e = Some i) (concat (map elements (root doc # detached doc)))"

fun putAttribute :: "string \<Rightarrow> jsstring \<Rightarrow> (string \<times> jsstring) list \<Rightarrow> (string \<times> jsstring) list" where
  "putAttribute name v [] = [(name, v)]"
| "putAttribute name v ((n, w) # attrs) =
     (if n = name then (name, v) # attrs else (n, w) # putAttribute name v attrs)"

fun setAttr :: "string \<Rightarrow> jsstring \<Rightarrow> enode \<Rightarrow> enode" where
  "setAttr name v (CharData s) = CharData s"
| "setAttr name v (Elem i tag attrs kids) = Elem i tag (putAttribute name v attrs) kids"

fun appendKid :: "enode \<Rightarrow> enode \<Rightarrow> enode" where
  "appendKid k (CharData s) = CharData s"
| "appendKid k (Elem i tag attrs kids) = Elem i tag attrs (kids @ [k])"

fun prependKid :: "enode \<Rightarrow> enode \<Rightarrow> enode" where
  "prependKid k (CharData s) = CharData s"
| "prependKid k (Elem i tag attrs kids) = Elem i tag attrs (k # kids)"

fun removeKids :: "enode \<Rightarrow> enode" where
  "removeKids (CharData s) = CharData s"
| "removeKids (Elem i tag attrs kids) = Elem i tag attrs []"

definition setText :: "jsstring \<Rightarrow> enode list" where
  "setText s = (if s = [] then [] else [CharData s])"

section \<open>auto-toc.js: slugs and ids\<close>

text \<open>The decimal digits of a number, as a template literal prints an integer.\<close>

definition digitChar :: "nat \<Rightarrow> jschar" where
  "digitChar d = of_nat (48 + d)"

fun decimal :: "nat \<Rightarrow> jsstring" where
  "decimal n = (if n < 10 then [digitChar n] else decimal (n div 10) @ [digitChar (n mod 10)])"

text \<open>\<^verbatim>\<open>\w\<close> without the \<^verbatim>\<open>u\<close> and \<^verbatim>\<open>i\<close> flags: ASCII letters, digits and the underscore.\<close>

definition isWordChar :: "jschar \<Rightarrow> bool" where
  "isWordChar c \<longleftrightarrow>
     (0x41 \<le> c \<and> c \<le> 0x5A) \<or> (0x61 \<le> c \<and> c \<le> 0x7A) \<or> (0x30 \<le> c \<and> c \<le> 0x39) \<or> c = 0x5F"

text \<open>\<^verbatim>\<open>replace(/[\s_]+/g, '-')\<close>: every maximal run of white space and
  underscores becomes one hyphen; \<open>inRun\<close> tells that the run has begun.\<close>

fun collapseRuns :: "bool \<Rightarrow> jsstring \<Rightarrow> jsstring" where
  "collapseRuns inRun [] = []"
| "collapseRuns inRun (c # cs) =
     (if isWhiteSpace c \<or> c = 0x5F
      then (if inRun then collapseRuns True cs else 0x2D # collapseRuns True cs)
      else c # collapseRuns False cs)"

text \<open>
  \<^verbatim>\<open>generateSlug\<close>. \<^verbatim>\<open>toLowerCase\<close> is the platform's Unicode case conversion and is a
  parameter, \<open>lower\<close>. The last replacement, \<^verbatim>\<open>/^-+|-+$/g\<close>, removes the hyphens at both
  ends.
\<close>

definition generateSlug :: "(jsstring \<Rightarrow> jsstring) \<Rightarrow> jsstring \<Rightarrow> jsstring" where
  "generateSlug lower text =
     (let s = lower (trim text);
          s = filter (\<lambda>c. isWordChar c \<or> isWhiteSpace c \<or> c = 0x2D) s;
          s = collapseRuns False s
      in rev (dropWhile (\<lambda>c. c = 0x2D) (rev (dropWhile (\<lambda>c. c = 0x2D) s))))"

text \<open>
  The condition of the loop of \<^verbatim>\<open>generateUniqueId\<close>: some element of the document has
  the id, and the first such element is not the heading.
\<close>

definition idTaken :: "enode \<Rightarrow> nat \<Rightarrow> jsstring \<Rightarrow> bool" where
  "idTaken r heading ident =
     (case getElementById r ident of None \<Rightarrow> False | Some e \<Rightarrow> nodeIdOf e \<noteq> Some heading)"

definition candidate :: "jsstring \<Rightarrow> nat \<Rightarrow> jsstring" where
  "candidate baseSlug counter = baseSlug @ str ''-'' @ decimal counter"

text \<open>
  The loop of \<^verbatim>\<open>generateUniqueId\<close>, with the variables \<^verbatim>\<open>id\<close> and \<^verbatim>\<open>counter\<close>. It ends
  because the candidates are pairwise different and the document has finitely many ids.
\<close>

lemma digit_roundtrip: "k < 10 \<Longrightarrow> unat (digitChar k) - 48 = k"
proof -
  assume k: "k < 10"
  have "unat (of_nat (48 + k) :: jschar) = (48 + k) mod 2 ^ LENGTH(16)"
    by (rule unat_of_nat)
  also have "\<dots> = 48 + k" using k by simp
  finally show ?thesis by (simp add: digitChar_def)
qed

lemma decimal_value: "foldl (\<lambda>acc c. 10 * acc + (unat c - 48)) 0 (decimal n) = n"
proof (induction n rule: decimal.induct)
  case (1 n)
  show ?case
  proof (cases "n < 10")
    case True
    then show ?thesis by (subst decimal.simps) (simp add: digit_roundtrip)
  next
    case False
    have "n mod 10 < 10" by simp
    with False 1 show ?thesis
      by (subst decimal.simps) (simp add: digit_roundtrip del: decimal.simps)
  qed
qed

lemma inj_decimal: "inj decimal"
  by (rule inj_on_inverseI [where g = "foldl (\<lambda>acc c. 10 * acc + (unat c - 48)) 0"]) (rule decimal_value)

lemma inj_candidate: "inj (candidate b)"
  using inj_decimal by (auto simp: inj_def candidate_def)

lemma finite_candidates: "finite {k. candidate b k \<in> set ids}"
proof -
  have "{k. candidate b k \<in> set ids} = candidate b -` set ids" by auto
  then show ?thesis by (simp add: finite_vimageI inj_candidate)
qed

function uniqueIdLoop :: "enode \<Rightarrow> nat \<Rightarrow> jsstring \<Rightarrow> jsstring \<Rightarrow> nat \<Rightarrow> jsstring" where
  "uniqueIdLoop r heading baseSlug ident counter =
     (if idTaken r heading ident
      then uniqueIdLoop r heading baseSlug (candidate baseSlug counter) (counter + 1)
      else ident)"
  by pat_completeness auto
termination
proof (relation "measure (\<lambda>(r, heading, baseSlug, ident, counter).
    card {k. counter \<le> k \<and> candidate baseSlug k \<in> set (map idOf (elements r))} +
    (if ident \<in> set (map idOf (elements r)) then 1 else 0))", goal_cases)
  case 1
  show ?case by simp
next
  case (2 r heading baseSlug ident counter)
  let ?ids = "set (map idOf (elements r))"
  let ?A = "\<lambda>c. {k. c \<le> k \<and> candidate baseSlug k \<in> ?ids}"
  from 2 obtain e where "getElementById r ident = Some e"
    by (auto simp: idTaken_def split: option.splits)
  then have "find (\<lambda>e. idOf e = ident) (elements r) = Some e"
    by (simp add: getElementById_def split: if_splits)
  then have "e \<in> set (elements r)" "idOf e = ident"
    by (auto simp: find_Some_iff)
  then have mem: "ident \<in> ?ids" by auto
  have fin: "finite (?A c)" for c
    by (rule finite_subset [OF _ finite_candidates [of baseSlug "map idOf (elements r)"]]) auto
  have split: "?A counter = (if candidate baseSlug counter \<in> ?ids then insert counter (?A (Suc counter)) else ?A (Suc counter))"
    by (auto simp: Suc_le_eq le_less)
  have "card (?A (Suc counter)) + (if candidate baseSlug counter \<in> ?ids then 1 else 0) = card (?A counter)"
    unfolding split using fin [of "Suc counter"] by simp
  with mem show ?case by simp
qed

definition generateUniqueId :: "enode \<Rightarrow> nat \<Rightarrow> jsstring \<Rightarrow> jsstring" where
  "generateUniqueId r heading baseSlug = uniqueIdLoop r heading baseSlug baseSlug 1"

section \<open>auto-toc.js: the container and the list\<close>

definition containerId :: jsstring where
  "containerId = str ''toc-container''"

definition tocTitle :: jsstring where
  "tocTitle = str ''Table of Content''"

text \<open>\<^verbatim>\<open>document.body\<close>: the first \<^verbatim>\<open>body\<close> or \<^verbatim>\<open>frameset\<close> child of the document element.\<close>

definition bodyOf :: "enode \<Rightarrow> enode option" where
  "bodyOf r = find (\<lambda>k. tagOf k = ''body'' \<or> tagOf k = ''frameset'') (kidsOf r)"

text \<open>
  \<^verbatim>\<open>getOrCreateContainer\<close>, with \<^verbatim>\<open>CONFIG.clearContainer\<close> true. A new container becomes
  the first child of the body in either branch of the test of \<^verbatim>\<open>firstChild\<close>; without a
  body the read of \<^verbatim>\<open>document.body.firstChild\<close> throws. Clearing an existing container
  detaches its children. The result is the identity of the container and the document.
\<close>

definition getOrCreateContainer :: "tocDocument \<Rightarrow> js_error + nat \<times> tocDocument" where
  "getOrCreateContainer doc =
     (case getElementById (root doc) containerId of
        Some (Elem c tag attrs kids) \<Rightarrow>
          Inr (c, doc\<lparr>root := updateNode c removeKids (root doc), detached := detached doc @ kids\<rparr>)
      | _ \<Rightarrow>
          let c = nextNode doc;
              container = Elem c ''div'' [(''id'', containerId), (''class'', str ''auto-toc'')] []
          in case bodyOf (root doc) of
               Some (Elem b tag attrs kids) \<Rightarrow>
                 Inr (c, doc\<lparr>root := updateNode b (prependKid container) (root doc), nextNode := c + 1\<rparr>)
             | _ \<Rightarrow> Inl (TypeError (str ''Cannot read properties of null (reading firstChild)'')))"

text \<open>
  \<^verbatim>\<open>parseInt(heading.tagName.charAt(1), 10)\<close>: the second character of the tag name when
  it is a digit, \<^verbatim>\<open>NaN\<close> (\<open>None\<close>) otherwise; and the class name built from it.
\<close>

definition headingLevel :: "string \<Rightarrow> nat option" where
  "headingLevel tag =
     (if length tag > 1 \<and> (of_char (tag ! 1) :: nat) \<ge> 48 \<and> (of_char (tag ! 1) :: nat) \<le> 57
      then Some (of_char (tag ! 1) - 48) else None)"

definition levelClass :: "nat option \<Rightarrow> jsstring" where
  "levelClass level = str ''toc-level-'' @ (case level of Some n \<Rightarrow> decimal n | None \<Rightarrow> str ''NaN'')"

text \<open>
  The body of \<^verbatim>\<open>headings.forEach\<close> for the heading with the given identity; \<open>ul\<close> is the
  identity of the list.
\<close>

definition tocEntry :: "(jsstring \<Rightarrow> jsstring) \<Rightarrow> nat \<Rightarrow> tocDocument \<Rightarrow> nat \<Rightarrow> tocDocument" where
  "tocEntry lower ul doc heading =
     (case lookupNode doc heading of
        None \<Rightarrow> doc
      | Some h \<Rightarrow>
          let ident =
                (if idOf h = [] then
                   let baseSlug = generateSlug lower (textOf h)
                   in if baseSlug \<noteq> [] then generateUniqueId (root doc) heading baseSlug
                      else generateUniqueId (root doc) heading (str ''section'')
                 else idOf h);
              doc = (if idOf h = [] then updateEverywhere heading (setAttr ''id'' ident) doc else doc);
              level = headingLevel (tagOf h);
              link = Elem (nextNode doc + 1) ''a'' [(''href'', str ''#'' @ ident)] (setText (trim (textOf h)));
              li = Elem (nextNode doc) ''li'' [(''class'', levelClass level)] [link]
          in (updateEverywhere ul (appendKid li) doc)\<lparr>nextNode := nextNode doc + 2\<rparr>)"

text \<open>
  \<^verbatim>\<open>generateTOC\<close>: the document after the call, or the error thrown. While the document
  is loading the function only registers itself for \<^verbatim>\<open>DOMContentLoaded\<close>.
\<close>

definition generateTOC :: "(jsstring \<Rightarrow> jsstring) \<Rightarrow> tocDocument \<Rightarrow> js_error + tocDocument" where
  "generateTOC lower doc =
     (if readyState doc = Loading then Inr (doc\<lparr>listening := True\<rparr>)
      else
        let headings = querySelectorAll (root doc) ''h1''
        in if length headings = 0 then Inr doc
           else
             case getOrCreateContainer doc of
               Inl e \<Rightarrow> Inl e
             | Inr (container, doc) \<Rightarrow>
                 let titleEl = Elem (nextNode doc) ''h2'' [(''class'', str ''toc-title'')] (setText tocTitle);
                     doc = (updateEverywhere container (appendKid titleEl) doc)\<lparr>nextNode := nextNode doc + 1\<rparr>;
                     ul = nextNode doc;
                     doc = (updateEverywhere container (appendKid (Elem ul ''ul'' [] [])) doc)\<lparr>nextNode := ul + 1\<rparr>
                 in Inr (foldl (tocEntry lower ul) doc (List.map_filter nodeIdOf headings)))"

text \<open>The event: the document is no longer loading, and a registered listener runs.\<close>

definition domContentLoaded :: "(jsstring \<Rightarrow> jsstring) \<Rightarrow> tocDocument \<Rightarrow> js_error + tocDocument" where
  "domContentLoaded lower doc =
     (let doc = doc\<lparr>readyState := Interactive\<rparr>
      in if listening doc then generateTOC lower doc else Inr doc)"

section \<open>Observations used to state the properties\<close>

text \<open>A list joined by a separator: the separator between neighbours, none at the end.\<close>

fun joinWith :: "'a \<Rightarrow> 'a list \<Rightarrow> 'a list" where
  "joinWith sep [] = []"
| "joinWith sep [x] = [x]"
| "joinWith sep (x # y # ys) = x # sep # joinWith sep (y # ys)"

text \<open>The labels of the term nodes of a rendered list, in document order.\<close>

definition termLabels :: "node \<Rightarrow> jsstring list" where
  "termLabels dl = map textContent (filter (\<lambda>k. tagName k = ''dt'') (childNodes dl))"

definition descriptionNodes :: "node \<Rightarrow> node list" where
  "descriptionNodes dl = filter (\<lambda>k. tagName k = ''dd'') (childNodes dl)"

text \<open>
  The sections of a rendered list: the label of each term node with the description node
  that is its next sibling.
\<close>

fun sectionsOf :: "node list \<Rightarrow> (jsstring \<times> node) list" where
  "sectionsOf (dt # dd # rest) =
     (if tagName dt = ''dt'' \<and> tagName dd = ''dd'' then (textContent dt, dd) # sectionsOf rest
      else sectionsOf (dd # rest))"
| "sectionsOf rest = []"

text \<open>
  The record the mapper delivers for a file, if any, and the records of a whole
  configuration in the order of \<^verbatim>\<open>postFiles\<close>.
\<close>

definition articleOf :: "jsstring \<Rightarrow> fetch_outcome \<Rightarrow> article option" where
  "articleOf fname r = (case fetchArticle fname r of (out, Fulfils a) \<Rightarrow> a | (out, Rejects e) \<Rightarrow> None)"

definition survivors :: "site_config \<Rightarrow> (jsstring \<Rightarrow> fetch_outcome) \<Rightarrow> article list" where
  "survivors cfg net =
     List.map_filter (\<lambda>fname. articleOf fname (net (postsDir cfg @ fname))) (postFiles cfg)"

section \<open>A small site, for concrete instances\<close>

definition siteConfig :: "jsstring list \<Rightarrow> site_config" where
  "siteConfig files =
     \<lparr>postsDir = str ''posts/'', postFiles = files, title = str ''Notes'',
      subtitle = str ''A knowledge base'', description = str ''Articles by category'',
      githubUrl = str ''https://github.com/'', copyrightYear = str ''2025''\<rparr>"

definition emptyPage :: "content option \<Rightarrow> page" where
  "emptyPage c = \<lparr>mainContainer = c, console = [], fetched = []\<rparr>"

definition threeArticles :: "nat \<Rightarrow> article" where
  "threeArticles i =
     (let fname = [of_nat (97 + i)] @ str ''.html''
      in \<lparr>filename = fname, category = str ''x'', slug = stripHtml fname, content = stripHtml fname\<rparr>)"

text \<open>A network given as a table of URLs; any other URL answers 404.\<close>

definition siteNet :: "(jsstring \<times> fetch_outcome) list \<Rightarrow> jsstring \<Rightarrow> fetch_outcome" where
  "siteNet table url =
     (case map_of table url of
        Some r \<Rightarrow> r
      | None \<Rightarrow> Response False 404 \<lparr>metaCategory = None, paragraphs = []\<rparr>)"

definition categoryDoc :: "string \<Rightarrow> document" where
  "categoryDoc c = \<lparr>metaCategory = Some (str c), paragraphs = []\<rparr>"

text \<open>The lower case of ASCII letters, for concrete instances.\<close>

definition asciiLower :: "jsstring \<Rightarrow> jsstring" where
  "asciiLower s = map (\<lambda>c. if 0x41 \<le> c \<and> c \<le> 0x5A then c + 0x20 else c) s"

definition tocPage :: "enode list \<Rightarrow> tocDocument" where
  "tocPage kids =
     \<lparr>readyState = Complete, listening = False,
      root = Elem 0 ''html'' [] [Elem 1 ''head'' [] [], Elem 2 ''body'' [] kids],
      detached = [], nextNode = 100\<rparr>"

section \<open>Properties of the fetch step\<close>

lemma all_dropWhile: "(\<forall>x\<in>set (dropWhile P xs). P x) \<longleftrightarrow> (\<forall>x\<in>set xs. P x)"
  by (induction xs) auto

lemma trim_empty_iff: "trim s = [] \<longleftrightarrow> list_all isWhiteSpace s"
  by (simp add: trim_def dropWhile_eq_Nil_conv all_dropWhile list_all_iff)

lemma firstParagraph_find:
  "firstParagraph ps = (case find (\<lambda>p. trim p \<noteq> []) ps of Some p \<Rightarrow> trim p | None \<Rightarrow> [])"
  by (induction ps) (simp_all add: Let_def)

lemma find_Some_holds: "find P xs = Some x \<Longrightarrow> P x"
  by (induction xs) (auto split: if_splits)

lemma content_fallback:
  "(if firstParagraph ps = [] then d else firstParagraph ps) =
   (case find (\<lambda>p. trim p \<noteq> []) ps of Some p \<Rightarrow> trim p | None \<Rightarrow> d)"
  by (auto simp: firstParagraph_find split: option.splits dest: find_Some_holds)

lemma stripHtml_suffix: "stripHtml (base @ str ''.html'') = base"
  by (simp add: stripHtml_def endsWith_def)

lemma endsWith_iff: "endsWith s suf \<longleftrightarrow> (\<exists>b. s = b @ suf)"
proof
  assume "endsWith s suf"
  then have "s = take (length s - length suf) s @ suf"
    by (metis endsWith_def append_take_drop_id)
  then show "\<exists>b. s = b @ suf" ..
next
  assume "\<exists>b. s = b @ suf"
  then show "endsWith s suf" by (auto simp: endsWith_def)
qed

lemma stripHtml_other: "\<forall>b. fname \<noteq> b @ str ''.html'' \<Longrightarrow> stripHtml fname = fname"
  by (simp add: stripHtml_def endsWith_iff)

text \<open>
  C4. For a successfully fetched document the record's content is the trimmed text of the
  first paragraph, in document order, whose trimmed text is not empty; when there is no
  such paragraph it is the slug. The slug is the file name without its final \<^verbatim>\<open>.html\<close>,
  and the file name itself when it does not end so.
\<close>

theorem content_first_paragraph:
  "\<exists>out r. fetchArticle fname (Response True status doc) = (out, Fulfils (Some r)) \<and>
     slug r = stripHtml fname \<and>
     content r = (case find (\<lambda>p. trim p \<noteq> []) (paragraphs doc) of
                    Some p \<Rightarrow> trim p | None \<Rightarrow> slug r) \<and>
     stripHtml (base @ str ''.html'') = base \<and>
     (\<forall>b. fname = b @ str ''.html'' \<longrightarrow> slug r = b) \<and>
     ((\<forall>b. fname \<noteq> b @ str ''.html'') \<longrightarrow> slug r = fname)"
  by (auto simp: Let_def content_fallback stripHtml_suffix stripHtml_other split: option.splits prod.splits)

theorem content_first_paragraph_witness:
  "(\<exists>out r. fetchArticle (str ''a.html'')
       (Response True 200 \<lparr>metaCategory = None, paragraphs = [str '' '', str '' Hello '', str ''Bye'']\<rparr>)
         = (out, Fulfils (Some r)) \<and>
     slug r = str ''a'' \<and> content r = str ''Hello'') \<and>
   (\<exists>out r. fetchArticle (str ''README'')
       (Response True 200 \<lparr>metaCategory = None, paragraphs = [str ''  '']\<rparr>)
         = (out, Fulfils (Some r)) \<and>
     slug r = str ''README'' \<and> content r = str ''README'')"
proof -
  have a: "str ''a.html'' = str ''a'' @ str ''.html''" by (simp add: str_def)
  have n: "\<forall>b. str ''README'' \<noteq> b @ str ''.html''"
    using endsWith_iff [of "str ''README''" "str ''.html''"] by (simp add: endsWith_def str_def)
  from content_first_paragraph [of "str ''a.html''" 200
      "\<lparr>metaCategory = None, paragraphs = [str '' '', str '' Hello '', str ''Bye'']\<rparr>" "str ''a''"]
  obtain out r where r: "fetchArticle (str ''a.html'')
       (Response True 200 \<lparr>metaCategory = None, paragraphs = [str '' '', str '' Hello '', str ''Bye'']\<rparr>)
         = (out, Fulfils (Some r))"
    "content r = (case find (\<lambda>p. trim p \<noteq> []) [str '' '', str '' Hello '', str ''Bye''] of
                    Some p \<Rightarrow> trim p | None \<Rightarrow> slug r)"
    "\<forall>b. str ''a.html'' = b @ str ''.html'' \<longrightarrow> slug r = b" by auto
  from r(3) a have "slug r = str ''a''" by blast
  moreover from r(2) have "content r = str ''Hello''"
    by (simp add: str_def trim_def isWhiteSpace_def)
  ultimately have 1: "\<exists>out r. fetchArticle (str ''a.html'')
       (Response True 200 \<lparr>metaCategory = None, paragraphs = [str '' '', str '' Hello '', str ''Bye'']\<rparr>)
         = (out, Fulfils (Some r)) \<and> slug r = str ''a'' \<and> content r = str ''Hello''"
    using r(1) by blast
  from content_first_paragraph [of "str ''README''" 200
      "\<lparr>metaCategory = None, paragraphs = [str ''  '']\<rparr>" "[]"]
  obtain out' r' where r': "fetchArticle (str ''README'')
       (Response True 200 \<lparr>metaCategory = None, paragraphs = [str ''  '']\<rparr>) = (out', Fulfils (Some r'))"
    "content r' = (case find (\<lambda>p. trim p \<noteq> []) [str ''  ''] of Some p \<Rightarrow> trim p | None \<Rightarrow> slug r')"
    "(\<forall>b. str ''README'' \<noteq> b @ str ''.html'') \<longrightarrow> slug r' = str ''README''" by auto
  from r'(3) n have s: "slug r' = str ''README''" by blast
  from r'(2) s have "content r' = str ''README''"
    by (simp add: str_def trim_def isWhiteSpace_def)
  with s r'(1) have 2: "\<exists>out r. fetchArticle (str ''README'')
       (Response True 200 \<lparr>metaCategory = None, paragraphs = [str ''  '']\<rparr>)
         = (out, Fulfils (Some r)) \<and> slug r = str ''README'' \<and> content r = str ''README''"
    by blast
  from 1 2 show ?thesis ..
qed

text \<open>
  C5. For a successfully fetched document the record's category is \<^verbatim>\<open>others\<close> when the
  category tag is absent or its value consists of white space only (the empty value
  included), and the trimmed value of the tag otherwise.
\<close>

theorem category_default_others:
  "\<exists>out r. fetchArticle fname (Response True status doc) = (out, Fulfils (Some r)) \<and>
     category r = (case metaCategory doc of
                     None \<Rightarrow> str ''others''
                   | Some c \<Rightarrow> if list_all isWhiteSpace c then str ''others'' else trim c)"
  by (auto simp: Let_def trim_empty_iff split: option.splits prod.splits)

theorem category_default_others_witness:
  "\<exists>out r. fetchArticle (str ''a.html'')
       (Response True 200 \<lparr>metaCategory = Some (str ''  ''), paragraphs = []\<rparr>)
         = (out, Fulfils (Some r)) \<and>
     category r = str ''others''"
  using category_default_others [of "str ''a.html''" 200
      "\<lparr>metaCategory = Some (str ''  ''), paragraphs = []\<rparr>"]
  by (simp add: str_def isWhiteSpace_def)

section \<open>Properties of buildAutoIndex\<close>

text \<open>
  C8. When the page has no main content region, \<^verbatim>\<open>buildAutoIndex\<close> reports the error on
  the console and does nothing else: no loading message, no request, and the page is
  otherwise as it was.
\<close>

theorem missing_main_halts:
  "mainContainer pg = None \<Longrightarrow>
   buildAutoIndex cfg net sched pg = pg\<lparr>console := console pg @ [(ERROR, MainContainerNotFound)]\<rparr> \<and>
   mainContainer (buildAutoIndex cfg net sched pg) = None \<and>
   fetched (buildAutoIndex cfg net sched pg) = fetched pg"
  by (simp add: buildAutoIndex_def)

theorem missing_main_halts_witness:
  "mainContainer (emptyPage None) = None \<and>
   buildAutoIndex (siteConfig [str ''a.html'']) (\<lambda>url. FetchRejects (NetworkError [])) [0] (emptyPage None) =
     \<lparr>mainContainer = None, console = [(ERROR, MainContainerNotFound)], fetched = []\<rparr>"
  using missing_main_halts [of "emptyPage None" "siteConfig [str ''a.html'']"
      "\<lambda>url. FetchRejects (NetworkError [])" "[0]"]
  by (simp add: emptyPage_def)

section \<open>Properties of the rendering\<close>

lemma joinWith_Nil_iff [simp]: "joinWith sep xs = [] \<longleftrightarrow> xs = []"
  by (induction sep xs rule: joinWith.induct) auto

lemma appendLinks_join:
  "len = index + length as \<Longrightarrow>
   appendLinks cfg len as index dd =
     dd @ concat (map (\<lambda>a. [articleLink cfg a, Text (str ''; '')]) (butlast as)) @
     (if as = [] then [] else [articleLink cfg (last as)])"
proof (induction as arbitrary: index dd)
  case Nil
  then show ?case by simp
next
  case (Cons a as)
  show ?case
  proof (cases "as = []")
    case True
    with Cons.prems show ?thesis by (simp add: Let_def)
  next
    case False
    with Cons.prems have "int index < int len - 1" by (cases as) auto
    with Cons.prems False Cons.IH [of "Suc index"] show ?thesis
      by (simp add: Let_def)
  qed
qed

lemma joinWith_concat:
  "as \<noteq> [] \<Longrightarrow>
   concat (map (\<lambda>a. [f a, sep]) (butlast as)) @ [f (last as)] = joinWith sep (map f as)"
  by (induction as rule: induct_list012) auto

lemma childNodes_descriptionNode:
  "articles \<noteq> [] \<Longrightarrow>
   childNodes (descriptionNode cfg articles) = joinWith (Text (str ''; '')) (map (articleLink cfg) articles)"
  by (simp add: descriptionNode_def appendLinks_join joinWith_concat)

lemma count_sep_joinWith:
  "sep \<notin> set xs \<Longrightarrow> length (filter (\<lambda>k. k = sep) (joinWith sep xs)) = length xs - 1"
  by (induction sep xs rule: joinWith.induct) auto

lemma last_joinWith: "xs \<noteq> [] \<Longrightarrow> last (joinWith sep xs) = last xs"
  by (induction sep xs rule: joinWith.induct) auto

lemma textContent_setTextContent: "concat (map textContent (setTextContent s)) = s"
  by (simp add: setTextContent_def)

text \<open>
  The description node of a non-empty list of articles: the links joined by the
  separator, one separator fewer than links, a link at the end.
\<close>

lemma description_node_joined:
  assumes "articles \<noteq> []"
  shows "descriptionNode cfg articles =
           Element ''dd'' [(''class'', str ''postDd'')]
             (joinWith (Text (str ''; '')) (map (articleLink cfg) articles)) \<and>
         length (filter (\<lambda>k. k = Text (str ''; '')) (childNodes (descriptionNode cfg articles)))
           = length articles - 1 \<and>
         length (filter (\<lambda>k. tagName k = ''a'') (childNodes (descriptionNode cfg articles)))
           = length articles \<and>
         last (childNodes (descriptionNode cfg articles)) = articleLink cfg (last articles) \<and>
         (\<forall>a. tagName (articleLink cfg a) = ''a'' \<and> textContent (articleLink cfg a) = slug a \<and>
              getAttribute (articleLink cfg a) ''href'' = Some (postsDir cfg @ filename a))"
proof -
  have kids: "childNodes (descriptionNode cfg articles) =
      joinWith (Text (str ''; '')) (map (articleLink cfg) articles)"
    using assms by (rule childNodes_descriptionNode)
  have nosep: "Text (str ''; '') \<notin> set (map (articleLink cfg) articles)"
    by (auto simp: articleLink_def)
  have links: "length (filter (\<lambda>k. tagName k = ''a'') (joinWith (Text s) (map (articleLink cfg) as)))
      = length as" for s as
    by (induction as rule: induct_list012) (simp_all add: articleLink_def)
  show ?thesis
    unfolding kids
    using assms count_sep_joinWith [OF nosep] kids
    by (simp add: last_joinWith last_map links textContent_setTextContent)
       (simp add: descriptionNode_def articleLink_def textContent_setTextContent)
qed

section \<open>Properties of the category list\<close>

lemma terms_of_sections:
  "filter (\<lambda>n. tagName n = ''dt'') (concat (map (\<lambda>k. [termNode k, descriptionNode cfg (f k)]) ks))
     = map termNode ks"
  by (induction ks) (simp_all add: termNode_def descriptionNode_def)

lemma textContent_termNode: "textContent (termNode k) = k"
  by (simp add: termNode_def setTextContent_def)

lemma termLabels_buildCategoryList:
  "termLabels (buildCategoryList cfg postMap) = sort (map fst postMap)"
  by (simp add: termLabels_def buildCategoryList_def terms_of_sections textContent_termNode
      o_def map_idI)

lemma upper_before_lower:
  fixes c d :: jschar
  shows "c \<le> 0x5A \<Longrightarrow> 0x61 \<le> d \<Longrightarrow> c # s < d # t"
proof -
  assume "c \<le> 0x5A" "0x61 \<le> d"
  moreover have "(0x5A :: jschar) < 0x61" by simp
  ultimately have "c < d" by (meson le_less_trans less_le_trans)
  then show ?thesis by simp
qed

text \<open>
  C6. The term nodes of the rendered list are the category keys in ascending order of
  the default string comparison, under which every capital ASCII letter comes before
  every lowercase one: \<^verbatim>\<open>zebra\<close>, \<^verbatim>\<open>Alpha\<close>, \<^verbatim>\<open>beta\<close> render as \<^verbatim>\<open>Alpha\<close>, \<^verbatim>\<open>beta\<close>,
  \<^verbatim>\<open>zebra\<close>.
\<close>

theorem categories_rendered_sorted:
  "termLabels (buildCategoryList cfg postMap) = sort (map fst postMap) \<and>
   sorted (termLabels (buildCategoryList cfg postMap)) \<and>
   set (termLabels (buildCategoryList cfg postMap)) = fst ` set postMap \<and>
   length (termLabels (buildCategoryList cfg postMap)) = length postMap \<and>
   (\<forall>c d s t. 0x41 \<le> c \<and> c \<le> 0x5A \<and> 0x61 \<le> d \<and> d \<le> 0x7A \<longrightarrow> c # s < (d # t :: jsstring)) \<and>
   termLabels (buildCategoryList cfg [(str ''zebra'', zs), (str ''Alpha'', as), (str ''beta'', bs)])
     = [str ''Alpha'', str ''beta'', str ''zebra'']"
proof -
  have ex: "sort [str ''zebra'', str ''Alpha'', str ''beta''] = [str ''Alpha'', str ''beta'', str ''zebra'']"
    by (simp add: str_def)
  show ?thesis
    using upper_before_lower ex by (simp add: termLabels_buildCategoryList)
qed

theorem categories_rendered_sorted_witness:
  "termLabels (buildCategoryList (siteConfig []) [(str ''b'', []), (str ''Zeta'', []), (str ''a'', [])])
     = [str ''Zeta'', str ''a'', str ''b''] \<and>
   str ''Zeta'' < str ''a''"
  using categories_rendered_sorted [of "siteConfig []" "[(str ''b'', []), (str ''Zeta'', []), (str ''a'', [])]"]
  by (simp add: str_def)

section \<open>Properties of Promise.all\<close>

lemma promiseAll_fulfilled:
  assumes "length vals = length ps" "length vs = length ps"
    and "\<forall>j<length ps. snd (ps ! j) = Fulfils (vs ! j)"
    and "\<forall>j<length ps. vals ! j = None \<or> vals ! j = Some (vs ! j)"
    and "\<forall>j<length ps. vals ! j = None \<longrightarrow> j \<in> set sched"
    and "None \<in> set vals"
  shows "snd (promiseAll ps sched vals out) = Fulfilled vs \<and>
         set (fst (promiseAll ps sched vals out)) =
           set out \<union> (\<Union>j\<in>{j. j < length ps \<and> vals ! j = None}. set (fst (ps ! j)))"
  using assms
proof (induction sched arbitrary: vals out)
  case Nil
  then show ?case by (auto simp: in_set_conv_nth)
next
  case (Cons i sched)
  show ?case
  proof (cases "i \<ge> length ps \<or> vals ! i \<noteq> None")
    case True
    have "\<forall>j<length ps. vals ! j = None \<longrightarrow> j \<in> set sched"
      using Cons.prems(5) True by auto
    with Cons.IH [OF Cons.prems(1,2,3,4) _ Cons.prems(6), of out] True show ?thesis by simp
  next
    case False
    then have i: "i < length ps" "vals ! i = None" by auto
    obtain l where pi: "ps ! i = (l, Fulfils (vs ! i))"
      using Cons.prems(3) i by (cases "ps ! i") auto
    let ?vals = "vals[i := Some (vs ! i)]"
    have len: "length ?vals = length ps" using Cons.prems(1) by simp
    have inv: "\<forall>j<length ps. ?vals ! j = None \<or> ?vals ! j = Some (vs ! j)"
      using Cons.prems(1,4) i(1) by (auto simp: nth_list_update)
    have nones: "{j. j < length ps \<and> vals ! j = None} = insert i {j. j < length ps \<and> ?vals ! j = None}"
      using i Cons.prems(1) by (auto simp: nth_list_update)
    show ?thesis
    proof (cases "None \<in> set ?vals")
      case False
      then have all: "\<forall>j<length ps. ?vals ! j = Some (vs ! j)"
        using inv len by (metis nth_mem)
      have "map the ?vals = vs"
        using all len Cons.prems(2) by (intro nth_equalityI) auto
      moreover have emp: "{j. j < length ps \<and> ?vals ! j = None} = {}"
        using all by auto
      have "(\<Union>j\<in>{j. j < length ps \<and> vals ! j = None}. set (fst (ps ! j))) = set l"
        unfolding nones emp using pi by simp
      ultimately show ?thesis
        using i pi False by (simp add: Let_def)
    next
      case True
      have sched: "\<forall>j<length ps. ?vals ! j = None \<longrightarrow> j \<in> set sched"
        using Cons.prems(1,5) i(1) by (auto simp: nth_list_update split: if_splits)
      from Cons.IH [OF len Cons.prems(2,3) inv sched True, of "out @ l"]
      show ?thesis
        using i pi True nones by (auto simp: Let_def)
    qed
  qed
qed

lemma promiseAll_rejected:
  assumes "length vals = length ps"
    and "\<forall>j<length ps. vals ! j = None \<longrightarrow> j \<in> set sched"
    and "\<exists>j<length ps. vals ! j = None \<and> (\<exists>l e. ps ! j = (l, Rejects e))"
  shows "\<exists>j<length ps. \<exists>l e. ps ! j = (l, Rejects e) \<and> snd (promiseAll ps sched vals out) = Rejected e"
  using assms
proof (induction sched arbitrary: vals out)
  case Nil
  then show ?case by auto
next
  case (Cons i sched)
  show ?case
  proof (cases "i \<ge> length ps \<or> vals ! i \<noteq> None")
    case True
    have "\<forall>j<length ps. vals ! j = None \<longrightarrow> j \<in> set sched"
      using Cons.prems(2) True by auto
    with Cons.IH [OF Cons.prems(1) _ Cons.prems(3), of out] True show ?thesis by simp
  next
    case False
    then have i: "i < length ps" "vals ! i = None" by auto
    obtain l r where pi: "ps ! i = (l, r)" by (cases "ps ! i")
    show ?thesis
    proof (cases r)
      case (Rejects e)
      with i pi show ?thesis by auto
    next
      case (Fulfils v)
      let ?vals = "vals[i := Some v]"
      obtain j where j: "j < length ps" "vals ! j = None" "\<exists>l e. ps ! j = (l, Rejects e)"
        using Cons.prems(3) by auto
      with pi Fulfils have "j \<noteq> i" by auto
      with j Cons.prems(1) have jn: "?vals ! j = None" by simp
      then have "None \<in> set ?vals"
        using j(1) Cons.prems(1) by (metis length_list_update nth_mem)
      moreover have "\<forall>j<length ps. ?vals ! j = None \<longrightarrow> j \<in> set sched"
        using Cons.prems(1,2) i(1) by (auto simp: nth_list_update split: if_splits)
      moreover have "\<exists>j<length ps. ?vals ! j = None \<and> (\<exists>l e. ps ! j = (l, Rejects e))"
        using j jn by auto
      ultimately show ?thesis
        using Cons.IH [of ?vals "out @ l"] Cons.prems(1) i pi Fulfils by (simp add: Let_def)
    qed
  qed
qed

section \<open>Properties of the grouping\<close>

lemma map_of_setOwn: "map_of (setOwn m k v) = (map_of m)(k \<mapsto> v)"
  by (induction m k v rule: setOwn.induct) auto

lemma keys_setOwn: "fst ` set (setOwn m k v) = insert k (fst ` set m)"
  by (induction m k v rule: setOwn.induct) auto

lemma distinct_setOwn: "distinct (map fst m) \<Longrightarrow> distinct (map fst (setOwn m k v))"
  by (induction m k v rule: setOwn.induct) (auto simp: keys_setOwn)

lemma bucketOf_setOwn: "bucketOf (setOwn m k v) k' = (if k' = k then v else bucketOf m k')"
  by (simp add: bucketOf_def map_of_setOwn)

lemma getProperty_cases:
  "getProperty m k =
     (if k \<in> fst ` set m then Own (bucketOf m k)
      else if k \<in> set objectPrototypeKeys then Inherited else Undefined)"
proof (cases "map_of m k")
  case None
  then have "k \<notin> fst ` set m" by (simp add: map_of_eq_None_iff)
  with None show ?thesis by (simp add: getProperty_def)
next
  case (Some v)
  then have "k \<in> fst ` set m" by (metis map_of_eq_None_iff option.distinct(1))
  with Some show ?thesis by (simp add: getProperty_def bucketOf_def)
qed

lemma addArticle_cases:
  "addArticle m a =
     (if category a \<in> fst ` set m then Inr (setOwn m (category a) (bucketOf m (category a) @ [a]))
      else if category a \<in> set objectPrototypeKeys then Inl pushNotAFunction
      else Inr (setOwn (setOwn m (category a) []) (category a) [a]))"
  by (simp add: addArticle_def getProperty_cases keys_setOwn bucketOf_setOwn Let_def)

lemma addArticle_Inr:
  assumes "addArticle m a = Inr m'"
  shows "bucketOf m' k = bucketOf m k @ (if category a = k then [a] else [])"
    and "fst ` set m' = insert (category a) (fst ` set m)"
    and "distinct (map fst m) \<Longrightarrow> distinct (map fst m')"
    and "category a \<in> fst ` set m \<or> category a \<notin> set objectPrototypeKeys"
proof -
  have nb: "category a \<notin> fst ` set m \<Longrightarrow> bucketOf m (category a) = []"
    by (simp add: bucketOf_def map_of_eq_None_iff [THEN iffD2])
  show "bucketOf m' k = bucketOf m k @ (if category a = k then [a] else [])"
    using assms nb by (auto simp: addArticle_cases bucketOf_setOwn split: if_splits)
  have "m' = setOwn m (category a) (bucketOf m (category a) @ [a]) \<or>
        m' = setOwn (setOwn m (category a) []) (category a) [a]"
    using assms by (simp add: addArticle_cases split: if_splits)
  then show "fst ` set m' = insert (category a) (fst ` set m)"
    by (elim disjE) (simp_all add: keys_setOwn)
  show "distinct (map fst m) \<Longrightarrow> distinct (map fst m')"
    using assms by (auto simp: addArticle_cases distinct_setOwn split: if_splits)
  show "category a \<in> fst ` set m \<or> category a \<notin> set objectPrototypeKeys"
    using assms by (auto simp: addArticle_cases split: if_splits)
qed

lemma groupByCategory_Inr:
  assumes "groupByCategory m as = Inr m'"
  shows "bucketOf m' k = bucketOf m k @ filter (\<lambda>a. category a = k) as
       \<and> fst ` set m' = fst ` set m \<union> category ` set as
       \<and> (distinct (map fst m) \<longrightarrow> distinct (map fst m'))"
  using assms
proof (induction as arbitrary: m)
  case Nil
  then show ?case by simp
next
  case (Cons a as)
  then obtain m1 where m1: "addArticle m a = Inr m1" "groupByCategory m1 as = Inr m'"
    by (auto split: sum.splits)
  from Cons.IH [OF m1(2)] addArticle_Inr(1,2,3) [OF m1(1)]
  show ?case by auto
qed

lemma groupByCategory_succeeds_iff:
  assumes "fst ` set m \<inter> set objectPrototypeKeys = {}"
  shows "(\<exists>m'. groupByCategory m as = Inr m') \<longleftrightarrow> (\<forall>a\<in>set as. category a \<notin> set objectPrototypeKeys)"
  using assms
proof (induction as arbitrary: m)
  case Nil
  then show ?case by simp
next
  case (Cons a as)
  show ?case
  proof (cases "addArticle m a")
    case (Inl e)
    then have "category a \<in> set objectPrototypeKeys"
      by (auto simp: addArticle_cases split: if_splits)
    with Inl show ?thesis by simp
  next
    case (Inr m1)
    from addArticle_Inr(2,4) [OF Inr] Cons.prems
    have safe: "category a \<notin> set objectPrototypeKeys" and "fst ` set m1 \<inter> set objectPrototypeKeys = {}"
      by auto
    with Cons.IH [of m1] Inr show ?thesis by simp
  qed
qed

lemma groupByCategory_error:
  "groupByCategory m as = Inl e \<Longrightarrow> e = pushNotAFunction"
  by (induction as arbitrary: m) (auto simp: addArticle_cases split: sum.splits if_splits)

lemma in_bucket:
  assumes "distinct (map fst m)"
  shows "(k, b) \<in> set m \<longleftrightarrow> k \<in> fst ` set m \<and> bucketOf m k = b"
proof
  assume "(k, b) \<in> set m"
  then have "map_of m k = Some b" using assms by simp
  moreover from \<open>(k, b) \<in> set m\<close> have "k \<in> fst ` set m" by force
  ultimately show "k \<in> fst ` set m \<and> bucketOf m k = b" by (simp add: bucketOf_def)
next
  assume r: "k \<in> fst ` set m \<and> bucketOf m k = b"
  then obtain v where "map_of m k = Some v"
    by (metis map_of_eq_None_iff not_Some_eq)
  with r have "map_of m k = Some b" by (simp add: bucketOf_def)
  then show "(k, b) \<in> set m" by (rule map_of_SomeD)
qed

section \<open>Properties of buildPostMap\<close>

lemma valid_articles: "map the (filter (\<lambda>a. a \<noteq> None) (map f xs)) = List.map_filter f xs"
  by (induction xs) (auto simp: List.map_filter_simps split: option.splits)

lemma UN_nth: "(\<Union>j<length xs. F (xs ! j)) = (\<Union>x\<in>set xs. F x)"
proof -
  have "set xs = (!) xs ` {..<length xs}" by (auto simp: in_set_conv_nth)
  then show ?thesis by simp
qed

lemma fetchArticle_snd:
  "\<forall>e. r \<noteq> FetchRejects e \<Longrightarrow> snd (fetchArticle f r) = Fulfils (articleOf f r)"
  by (cases r) (auto simp: articleOf_def Let_def split: prod.splits option.splits)

lemma buildPostMap_all_respond:
  assumes complete: "{0..<length (postFiles cfg)} \<subseteq> set sched"
    and norej: "\<forall>f\<in>set (postFiles cfg). \<forall>e. net (postsDir cfg @ f) \<noteq> FetchRejects e"
  shows "snd (snd (buildPostMap cfg net sched)) =
           (case groupByCategory [] (survivors cfg net) of Inl e \<Rightarrow> Rejected e | Inr m \<Rightarrow> Fulfilled m)"
    and "postFiles cfg \<noteq> [] \<Longrightarrow> set (fst (buildPostMap cfg net sched)) =
           insert (LOG, FoundArticles (length (postFiles cfg)) (postFiles cfg))
             (\<Union>f\<in>set (postFiles cfg). set (fst (fetchArticle f (net (postsDir cfg @ f)))))"
proof -
  let ?files = "postFiles cfg"
  let ?ps = "map (\<lambda>fname. fetchArticle fname (net (postsDir cfg @ fname))) ?files"
  let ?vs = "map (\<lambda>fname. articleOf fname (net (postsDir cfg @ fname))) ?files"
  let ?vals = "replicate (length ?ps) (None :: article option option)"
  have surv: "map the (filter (\<lambda>a. a \<noteq> None) ?vs) = survivors cfg net"
    unfolding survivors_def by (rule valid_articles)
  {
    assume ne: "?files \<noteq> []"
    have 1: "length ?vals = length ?ps" by simp
    have 2: "length ?vs = length ?ps" by simp
    have 3: "\<forall>j<length ?ps. snd (?ps ! j) = Fulfils (?vs ! j)"
      using norej by (simp add: fetchArticle_snd)
    have 4: "\<forall>j<length ?ps. ?vals ! j = None \<or> ?vals ! j = Some (?vs ! j)" by simp
    have 5: "\<forall>j<length ?ps. ?vals ! j = None \<longrightarrow> j \<in> set sched"
      using complete by auto
    have 6: "None \<in> set ?vals" using ne by simp
    note promiseAll_fulfilled [OF 1 2 3 4 5 6, of "[]"]
  } note pa = this
  show "snd (snd (buildPostMap cfg net sched)) =
           (case groupByCategory [] (survivors cfg net) of Inl e \<Rightarrow> Rejected e | Inr m \<Rightarrow> Fulfilled m)"
  proof (cases "?files = []")
    case True
    then show ?thesis by (simp add: buildPostMap_def survivors_def List.map_filter_simps)
  next
    case False
    obtain out r where pr: "promiseAll ?ps sched ?vals [] = (out, r)" by (cases "promiseAll ?ps sched ?vals []")
    with pa [OF False] have "r = Fulfilled ?vs" by simp
    with pr False surv show ?thesis
      by (simp add: buildPostMap_def Let_def split: sum.splits)
  qed
  show "set (fst (buildPostMap cfg net sched)) =
           insert (LOG, FoundArticles (length (postFiles cfg)) (postFiles cfg))
             (\<Union>f\<in>set (postFiles cfg). set (fst (fetchArticle f (net (postsDir cfg @ f)))))"
    if ne: "postFiles cfg \<noteq> []"
  proof -
    obtain out r where pr: "promiseAll ?ps sched ?vals [] = (out, r)" by (cases "promiseAll ?ps sched ?vals []")
    with pa [OF ne] have r: "r = Fulfilled ?vs"
      and out: "set out = (\<Union>j\<in>{j. j < length ?ps \<and> ?vals ! j = None}. set (fst (?ps ! j)))" by simp_all
    have idx: "{j. j < length ?ps \<and> ?vals ! j = None} = {..<length ?files}" by auto
    have "set out = (\<Union>f\<in>set ?files. set (fst (fetchArticle f (net (postsDir cfg @ f)))))"
      unfolding out idx
      using UN_nth [of "\<lambda>f. set (fst (fetchArticle f (net (postsDir cfg @ f))))" ?files]
      by simp
    with pr r ne surv show ?thesis
      by (simp add: buildPostMap_def Let_def split: sum.splits)
  qed
qed

lemma buildPostMap_rejects:
  assumes complete: "{0..<length (postFiles cfg)} \<subseteq> set sched"
    and rej: "\<exists>f\<in>set (postFiles cfg). \<exists>e. net (postsDir cfg @ f) = FetchRejects e"
  shows "\<exists>f\<in>set (postFiles cfg). \<exists>e. net (postsDir cfg @ f) = FetchRejects e \<and>
           snd (snd (buildPostMap cfg net sched)) = Rejected e"
proof -
  let ?files = "postFiles cfg"
  let ?ps = "map (\<lambda>fname. fetchArticle fname (net (postsDir cfg @ fname))) ?files"
  let ?vals = "replicate (length ?ps) (None :: article option option)"
  from rej have ne: "?files \<noteq> []" by auto
  have 1: "length ?vals = length ?ps" by simp
  have 2: "\<forall>j<length ?ps. ?vals ! j = None \<longrightarrow> j \<in> set sched"
    using complete by auto
  from rej obtain j e where j: "j < length ?files" "net (postsDir cfg @ ?files ! j) = FetchRejects e"
    by (auto simp: in_set_conv_nth)
  then have 3: "\<exists>j<length ?ps. ?vals ! j = None \<and> (\<exists>l e. ?ps ! j = (l, Rejects e))"
    by (intro exI [of _ j]) simp
  from promiseAll_rejected [OF 1 2 3, of "[]"]
  obtain k l e' where k: "k < length ?ps" "?ps ! k = (l, Rejects e')"
    "snd (promiseAll ?ps sched ?vals []) = Rejected e'" by blast
  from k(1,2) have "net (postsDir cfg @ ?files ! k) = FetchRejects e'"
    by (cases "net (postsDir cfg @ ?files ! k)") (auto simp: Let_def split: if_splits prod.splits)
  moreover have "snd (snd (buildPostMap cfg net sched)) = Rejected e'"
  proof -
    obtain out r where pr: "promiseAll ?ps sched ?vals [] = (out, r)"
      by (cases "promiseAll ?ps sched ?vals []")
    with k(3) have "r = Rejected e'" by simp
    with pr ne show ?thesis by (simp add: buildPostMap_def Let_def)
  qed
  ultimately show ?thesis using k(1) by (intro bexI [of _ "?files ! k"]) auto
qed

lemma articleOf_Some:
  "articleOf f r = Some a \<longleftrightarrow> (\<exists>st d. r = Response True st d \<and> snd (fetchArticle f r) = Fulfils (Some a))"
  by (cases r) (auto simp: articleOf_def Let_def split: prod.splits option.splits)

lemma articleOf_filename: "articleOf f r = Some a \<Longrightarrow> filename a = f"
  by (cases r) (auto simp: articleOf_def Let_def split: prod.splits option.splits if_splits)

lemma articleOf_ok: "\<exists>a. articleOf f (Response True st d) = Some a"
  by (auto simp: articleOf_def Let_def split: prod.splits option.splits)

lemma set_survivors:
  "set (survivors cfg net) = {a. \<exists>f\<in>set (postFiles cfg). articleOf f (net (postsDir cfg @ f)) = Some a}"
proof -
  have "set (List.map_filter g fs) = {a. \<exists>f\<in>set fs. g f = Some a}" for g :: "jsstring \<Rightarrow> article option" and fs
    by (induction fs) (auto simp: List.map_filter_simps split: option.splits)
  then show ?thesis by (simp add: survivors_def)
qed

lemma filename_survivors:
  "map filename (survivors cfg net) =
     filter (\<lambda>f. \<exists>st d. net (postsDir cfg @ f) = Response True st d) (postFiles cfg)"
proof -
  have "map filename (List.map_filter (\<lambda>f. articleOf f (net (postsDir cfg @ f))) fs) =
        filter (\<lambda>f. \<exists>st d. net (postsDir cfg @ f) = Response True st d) fs" for fs
  proof (induction fs)
    case Nil
    show ?case by (simp add: List.map_filter_simps)
  next
    case (Cons f fs)
    show ?case
    proof (cases "articleOf f (net (postsDir cfg @ f))")
      case None
      then have "\<not> (\<exists>st d. net (postsDir cfg @ f) = Response True st d)"
        using articleOf_ok [of f] by (metis option.distinct(1))
      with None Cons show ?thesis by (simp add: List.map_filter_simps)
    next
      case (Some a)
      then have "\<exists>st d. net (postsDir cfg @ f) = Response True st d" and "filename a = f"
        using articleOf_Some [THEN iffD1, OF Some] articleOf_filename [OF Some] by blast+
      with Some Cons show ?thesis by (simp add: List.map_filter_simps)
    qed
  qed
  then show ?thesis by (simp add: survivors_def)
qed

lemma buildPostMap_Fulfilled:
  assumes "snd (snd (buildPostMap cfg net sched)) = Fulfilled m"
  shows "\<exists>as. groupByCategory [] as = Inr m"
proof (cases "postFiles cfg = []")
  case True
  with assms have "m = []" by (simp add: buildPostMap_def)
  then show ?thesis by (intro exI [of _ "[]"]) simp
next
  case False
  with assms show ?thesis
    by (auto simp: buildPostMap_def Let_def split: prod.splits promise.splits sum.splits)
qed

lemma grouped_from_empty:
  assumes "groupByCategory [] as = Inr m"
  shows "bucketOf m k = filter (\<lambda>a. category a = k) as"
    and "fst ` set m = category ` set as"
    and "distinct (map fst m)"
  using groupByCategory_Inr [OF assms] by (simp_all add: bucketOf_def)

lemma buckets_nonempty:
  assumes "groupByCategory [] as = Inr m" "(k, b) \<in> set m"
  shows "b \<noteq> []"
proof -
  from assms(2) in_bucket [OF grouped_from_empty(3) [OF assms(1)]]
  have k: "k \<in> fst ` set m" and b: "bucketOf m k = b" by auto
  from k grouped_from_empty(2) [OF assms(1)] obtain a where "a \<in> set as" "category a = k" by auto
  then have "filter (\<lambda>a. category a = k) as \<noteq> []" by (auto simp: filter_empty_conv)
  with b grouped_from_empty(1) [OF assms(1)] show ?thesis by simp
qed

lemma descriptions_of_sections:
  "filter (\<lambda>n. tagName n = ''dd'') (concat (map (\<lambda>k. [termNode k, descriptionNode cfg (f k)]) ks))
     = map (\<lambda>k. descriptionNode cfg (f k)) ks"
  by (induction ks) (simp_all add: termNode_def descriptionNode_def)

lemma descriptionNodes_buildCategoryList:
  "descriptionNodes (buildCategoryList cfg m) =
     map (\<lambda>k. descriptionNode cfg (bucketOf m k)) (sort (map fst m))"
  by (simp add: descriptionNodes_def buildCategoryList_def descriptions_of_sections)

lemma in_joinWith: "x \<in> set xs \<Longrightarrow> x \<in> set (joinWith sep xs)"
  by (induction sep xs rule: joinWith.induct) auto

lemma description_has_link:
  assumes "as \<noteq> []"
  shows "\<exists>l\<in>set (childNodes (descriptionNode cfg as)). tagName l = ''a''"
proof -
  from assms have "articleLink cfg (hd as) \<in> set (map (articleLink cfg) as)" by simp
  then have "articleLink cfg (hd as) \<in> set (childNodes (descriptionNode cfg as))"
    using assms by (simp add: childNodes_descriptionNode in_joinWith)
  moreover have "tagName (articleLink cfg (hd as)) = ''a''" by (simp add: articleLink_def)
  ultimately show ?thesis by blast
qed

section \<open>The pipeline on concrete and on arbitrary inputs\<close>

lemmas eval_defs = buildPostMap_def siteConfig_def siteNet_def categoryDoc_def str_def Let_def
  trim_def isWhiteSpace_def stripHtml_def endsWith_def addArticle_def getProperty_def
  objectPrototypeKeys_def threeArticles_def pushNotAFunction_def

lemma buildAutoIndex_rejected:
  assumes "mainContainer pg = Some c" "snd (snd (buildPostMap cfg net sched)) = Rejected e"
  shows "mainContainer (buildAutoIndex cfg net sched pg) = Some (InnerHTML (errorMarkup e))"
  using assms by (cases "buildPostMap cfg net sched") (auto simp: buildAutoIndex_def)

text \<open>
  C1, as the code has it. Let every fetch settle. When no fetch rejects, a file whose
  response has a non-success status is handled on its own: its warning is on the console,
  no record of it is among the records that are grouped, every file with a successful
  response has its record there, the promise of \<^verbatim>\<open>buildPostMap\<close> settles as the grouping
  of exactly those records does, each of them is in the bucket of its category, and the
  promise is fulfilled whenever no category is the name of a property of
  \<^verbatim>\<open>Object.prototype\<close>. When the fetch of some file rejects (a network error), the
  promise of \<^verbatim>\<open>buildPostMap\<close> is rejected with the error of such a file and
  \<^verbatim>\<open>buildAutoIndex\<close> replaces the main region with the error message.
\<close>

theorem retrieval_failures:
  assumes complete: "{0..<length (postFiles cfg)} \<subseteq> set sched"
  shows "((\<forall>f\<in>set (postFiles cfg). \<forall>e. net (postsDir cfg @ f) \<noteq> FetchRejects e) \<longrightarrow>
           snd (snd (buildPostMap cfg net sched)) =
             (case groupByCategory [] (survivors cfg net) of
                Inl e \<Rightarrow> Rejected e | Inr m \<Rightarrow> Fulfilled m) \<and>
           (\<forall>f st d. f \<in> set (postFiles cfg) \<and> net (postsDir cfg @ f) = Response False st d \<longrightarrow>
              (WARN, FailedToFetch f st) \<in> set (fst (buildPostMap cfg net sched)) \<and>
              f \<notin> filename ` set (survivors cfg net)) \<and>
           (\<forall>f st d. f \<in> set (postFiles cfg) \<and> net (postsDir cfg @ f) = Response True st d \<longrightarrow>
              (\<exists>a\<in>set (survivors cfg net). filename a = f)) \<and>
           (\<forall>m. snd (snd (buildPostMap cfg net sched)) = Fulfilled m \<longrightarrow>
              (\<forall>a\<in>set (survivors cfg net). a \<in> set (bucketOf m (category a)))) \<and>
           ((\<forall>a\<in>set (survivors cfg net). category a \<notin> set objectPrototypeKeys) \<longrightarrow>
              (\<exists>m. snd (snd (buildPostMap cfg net sched)) = Fulfilled m)))
       \<and> ((\<exists>f\<in>set (postFiles cfg). \<exists>e. net (postsDir cfg @ f) = FetchRejects e) \<longrightarrow>
           (\<exists>f\<in>set (postFiles cfg). \<exists>e. net (postsDir cfg @ f) = FetchRejects e \<and>
              snd (snd (buildPostMap cfg net sched)) = Rejected e \<and>
              (\<forall>pg c. mainContainer pg = Some c \<longrightarrow>
                 mainContainer (buildAutoIndex cfg net sched pg) = Some (InnerHTML (errorMarkup e)))))"
proof (intro conjI impI)
  assume norej: "\<forall>f\<in>set (postFiles cfg). \<forall>e. net (postsDir cfg @ f) \<noteq> FetchRejects e"
  note res = buildPostMap_all_respond(1) [OF complete norej]
  note names = filename_survivors [of cfg net]
  have img: "filename ` set (survivors cfg net) =
      {f \<in> set (postFiles cfg). \<exists>st d. net (postsDir cfg @ f) = Response True st d}"
    using arg_cong [OF names, of set] by simp
  show "snd (snd (buildPostMap cfg net sched)) =
      (case groupByCategory [] (survivors cfg net) of Inl e \<Rightarrow> Rejected e | Inr m \<Rightarrow> Fulfilled m)"
    by (rule res)
  show "\<forall>f st d. f \<in> set (postFiles cfg) \<and> net (postsDir cfg @ f) = Response False st d \<longrightarrow>
      (WARN, FailedToFetch f st) \<in> set (fst (buildPostMap cfg net sched)) \<and>
      f \<notin> filename ` set (survivors cfg net)"
  proof (intro allI impI, elim conjE)
    fix f st d
    assume f: "f \<in> set (postFiles cfg)" and bad: "net (postsDir cfg @ f) = Response False st d"
    from f have ne: "postFiles cfg \<noteq> []" by auto
    have "(WARN, FailedToFetch f st) \<in> set (fst (fetchArticle f (net (postsDir cfg @ f))))"
      using bad by simp
    with f have "(WARN, FailedToFetch f st) \<in> set (fst (buildPostMap cfg net sched))"
      unfolding buildPostMap_all_respond(2) [OF complete norej ne] by blast
    moreover have "f \<notin> filename ` set (survivors cfg net)"
      unfolding img using bad by simp
    ultimately show "(WARN, FailedToFetch f st) \<in> set (fst (buildPostMap cfg net sched)) \<and>
      f \<notin> filename ` set (survivors cfg net)" ..
  qed
  show "\<forall>f st d. f \<in> set (postFiles cfg) \<and> net (postsDir cfg @ f) = Response True st d \<longrightarrow>
      (\<exists>a\<in>set (survivors cfg net). filename a = f)"
  proof (intro allI impI, elim conjE)
    fix f st d
    assume "f \<in> set (postFiles cfg)" "net (postsDir cfg @ f) = Response True st d"
    then have "f \<in> filename ` set (survivors cfg net)" unfolding img by blast
    then show "\<exists>a\<in>set (survivors cfg net). filename a = f" by auto
  qed
  show "\<forall>m. snd (snd (buildPostMap cfg net sched)) = Fulfilled m \<longrightarrow>
      (\<forall>a\<in>set (survivors cfg net). a \<in> set (bucketOf m (category a)))"
  proof (intro allI impI ballI)
    fix m a
    assume "snd (snd (buildPostMap cfg net sched)) = Fulfilled m" and a: "a \<in> set (survivors cfg net)"
    with res have "groupByCategory [] (survivors cfg net) = Inr m"
      by (simp split: sum.splits)
    from grouped_from_empty(1) [OF this, of "category a"] a
    show "a \<in> set (bucketOf m (category a))" by simp
  qed
  show "\<exists>m. snd (snd (buildPostMap cfg net sched)) = Fulfilled m"
    if "\<forall>a\<in>set (survivors cfg net). category a \<notin> set objectPrototypeKeys"
  proof -
    from that groupByCategory_succeeds_iff [of "[]" "survivors cfg net"]
    obtain m where "groupByCategory [] (survivors cfg net) = Inr m" by auto
    with res show ?thesis by simp
  qed
next
  assume "\<exists>f\<in>set (postFiles cfg). \<exists>e. net (postsDir cfg @ f) = FetchRejects e"
  from buildPostMap_rejects [OF complete this]
  obtain f e where f: "f \<in> set (postFiles cfg)" "net (postsDir cfg @ f) = FetchRejects e"
    "snd (snd (buildPostMap cfg net sched)) = Rejected e" by blast
  have "\<forall>pg c. mainContainer pg = Some c \<longrightarrow>
      mainContainer (buildAutoIndex cfg net sched pg) = Some (InnerHTML (errorMarkup e))"
    using buildAutoIndex_rejected [OF _ f(3)] by blast
  with f show "\<exists>f\<in>set (postFiles cfg). \<exists>e. net (postsDir cfg @ f) = FetchRejects e \<and>
      snd (snd (buildPostMap cfg net sched)) = Rejected e \<and>
      (\<forall>pg c. mainContainer pg = Some c \<longrightarrow>
         mainContainer (buildAutoIndex cfg net sched pg) = Some (InnerHTML (errorMarkup e)))"
    by blast
qed

text \<open>
  C1 as stated fails for a network error: with \<^verbatim>\<open>a.html\<close> rejecting and \<^verbatim>\<open>b.html\<close>
  retrieved, no map is returned and the page shows the error, although \<^verbatim>\<open>b.html\<close>
  settled first.
\<close>

theorem retrieval_failures_counterexample:
  "snd (snd (buildPostMap (siteConfig [str ''a.html'', str ''b.html''])
       (siteNet [(str ''posts/a.html'', FetchRejects (NetworkError (str ''Failed to fetch''))),
                 (str ''posts/b.html'', Response True 200 (categoryDoc ''x''))]) [1, 0]))
     = Rejected (NetworkError (str ''Failed to fetch'')) \<and>
   buildAutoIndex (siteConfig [str ''a.html'', str ''b.html''])
       (siteNet [(str ''posts/a.html'', FetchRejects (NetworkError (str ''Failed to fetch''))),
                 (str ''posts/b.html'', Response True 200 (categoryDoc ''x''))]) [1, 0]
       (emptyPage (Some (ChildNodes [])))
     = \<lparr>mainContainer = Some (InnerHTML (errorMarkup (NetworkError (str ''Failed to fetch'')))),
        console = [(LOG, FoundArticles 2 [str ''a.html'', str ''b.html'']),
                   (ERROR, ErrorBuilding (NetworkError (str ''Failed to fetch'')))],
        fetched = [str ''posts/a.html'', str ''posts/b.html'']\<rparr>"
  by (simp add: eval_defs buildAutoIndex_def emptyPage_def)

theorem retrieval_failures_witness:
  "snd (snd (buildPostMap (siteConfig [str ''a.html'', str ''b.html''])
       (siteNet [(str ''posts/a.html'', Response True 200 (categoryDoc ''x''))]) [1, 0]))
     = Fulfilled [(str ''x'', [threeArticles 0])] \<and>
   (WARN, FailedToFetch (str ''b.html'') 404) \<in>
     set (fst (buildPostMap (siteConfig [str ''a.html'', str ''b.html''])
       (siteNet [(str ''posts/a.html'', Response True 200 (categoryDoc ''x''))]) [1, 0])) \<and>
   snd (snd (buildPostMap (siteConfig [str ''a.html'', str ''b.html''])
       (siteNet [(str ''posts/a.html'', FetchRejects (NetworkError (str ''Failed to fetch''))),
                 (str ''posts/b.html'', Response True 200 (categoryDoc ''x''))]) [0, 1]))
     = Rejected (NetworkError (str ''Failed to fetch''))"
proof -
  let ?cfg = "siteConfig [str ''a.html'', str ''b.html'']"
  let ?status = "siteNet [(str ''posts/a.html'', Response True 200 (categoryDoc ''x''))]"
  let ?reject = "siteNet [(str ''posts/a.html'', FetchRejects (NetworkError (str ''Failed to fetch''))),
                 (str ''posts/b.html'', Response True 200 (categoryDoc ''x''))]"
  have s1: "{0..<length (postFiles ?cfg)} \<subseteq> set [1, 0]"
    and s2: "{0..<length (postFiles ?cfg)} \<subseteq> set [0, 1]"
    by (auto simp: siteConfig_def)
  have ok: "\<forall>f\<in>set (postFiles ?cfg). \<forall>e. ?status (postsDir ?cfg @ f) \<noteq> FetchRejects e"
    by (simp add: siteConfig_def siteNet_def str_def)
  have bad: "\<exists>f\<in>set (postFiles ?cfg). \<exists>e. ?reject (postsDir ?cfg @ f) = FetchRejects e"
    by (simp add: siteConfig_def siteNet_def str_def)
  have b: "str ''b.html'' \<in> set (postFiles ?cfg) \<and>
      ?status (postsDir ?cfg @ str ''b.html'') = Response False 404 \<lparr>metaCategory = None, paragraphs = []\<rparr>"
    by (simp add: siteConfig_def siteNet_def str_def)
  note status = retrieval_failures [OF s1, of ?status, THEN conjunct1, THEN mp, OF ok]
  note reject = retrieval_failures [OF s2, of ?reject, THEN conjunct2, THEN mp, OF bad]
  have sv: "survivors ?cfg ?status = [threeArticles 0]"
    by (simp add: survivors_def articleOf_def List.map_filter_simps eval_defs)
  have gr: "groupByCategory [] [threeArticles 0] = Inr [(str ''x'', [threeArticles 0])]"
    by (simp add: eval_defs)
  have 1: "snd (snd (buildPostMap ?cfg ?status [1, 0])) = Fulfilled [(str ''x'', [threeArticles 0])]"
    using status [THEN conjunct1] unfolding sv gr by simp
  have 2: "(WARN, FailedToFetch (str ''b.html'') 404) \<in> set (fst (buildPostMap ?cfg ?status [1, 0]))"
    using status [THEN conjunct2, THEN conjunct1, THEN spec, THEN spec, THEN spec, THEN mp, OF b]
    by (rule conjunct1)
  from reject obtain f e where f: "f \<in> set (postFiles ?cfg)"
    "?reject (postsDir ?cfg @ f) = FetchRejects e"
    "snd (snd (buildPostMap ?cfg ?reject [0, 1])) = Rejected e" by blast
  from f(1,2) have "e = NetworkError (str ''Failed to fetch'')"
    by (auto simp: siteConfig_def siteNet_def str_def split: if_splits)
  with f(3) have 3: "snd (snd (buildPostMap ?cfg ?reject [0, 1])) = Rejected (NetworkError (str ''Failed to fetch''))"
    by simp
  from 1 2 3 show ?thesis by (intro conjI)
qed

text \<open>
  C2, as the code has it. Let every fetch settle and none reject. The promise of
  \<^verbatim>\<open>buildPostMap\<close> settles as it does when the fetches settle in input order; when it is
  fulfilled the keys are distinct and each bucket is the list of the records of its
  category in the order of \<^verbatim>\<open>postFiles\<close>, whatever the order of settlement.
\<close>

theorem bucket_order_is_input_order:
  assumes complete: "{0..<length (postFiles cfg)} \<subseteq> set sched"
    and norej: "\<forall>f\<in>set (postFiles cfg). \<forall>e. net (postsDir cfg @ f) \<noteq> FetchRejects e"
  shows "snd (snd (buildPostMap cfg net sched)) =
           snd (snd (buildPostMap cfg net [0..<length (postFiles cfg)])) \<and>
         (\<forall>m. snd (snd (buildPostMap cfg net sched)) = Fulfilled m \<longrightarrow>
            distinct (map fst m) \<and>
            (\<forall>k. bucketOf m k = filter (\<lambda>a. category a = k) (survivors cfg net))) \<and>
         map filename (survivors cfg net) =
           filter (\<lambda>f. \<exists>st d. net (postsDir cfg @ f) = Response True st d) (postFiles cfg)"
proof (intro conjI allI impI)
  note res = buildPostMap_all_respond(1) [OF complete norej]
  have "{0..<length (postFiles cfg)} \<subseteq> set [0..<length (postFiles cfg)]" by simp
  from buildPostMap_all_respond(1) [OF this norej] res
  show "snd (snd (buildPostMap cfg net sched)) =
      snd (snd (buildPostMap cfg net [0..<length (postFiles cfg)]))" by simp
  show "map filename (survivors cfg net) =
      filter (\<lambda>f. \<exists>st d. net (postsDir cfg @ f) = Response True st d) (postFiles cfg)"
    by (rule filename_survivors)
  fix m
  assume "snd (snd (buildPostMap cfg net sched)) = Fulfilled m"
  with res have g: "groupByCategory [] (survivors cfg net) = Inr m"
    by (simp split: sum.splits)
  show "distinct (map fst m)" by (rule grouped_from_empty(3) [OF g])
  show "bucketOf m k = filter (\<lambda>a. category a = k) (survivors cfg net)" for k
    by (rule grouped_from_empty(1) [OF g])
qed

text \<open>
  C2 as stated fails: when \<^verbatim>\<open>b.html\<close> settles before \<^verbatim>\<open>a.html\<close> the bucket still lists
  \<^verbatim>\<open>a.html\<close> first.
\<close>

theorem bucket_order_counterexample:
  "snd (snd (buildPostMap (siteConfig [str ''a.html'', str ''b.html''])
       (siteNet [(str ''posts/a.html'', Response True 200 (categoryDoc ''x'')),
                 (str ''posts/b.html'', Response True 200 (categoryDoc ''x''))]) [1, 0]))
     = Fulfilled [(str ''x'', [threeArticles 0, threeArticles 1])] \<and>
   map filename [threeArticles 0, threeArticles 1] = [str ''a.html'', str ''b.html''] \<and>
   map filename [threeArticles 0, threeArticles 1] \<noteq>
     map ((!) (postFiles (siteConfig [str ''a.html'', str ''b.html'']))) [1, 0]"
  by (simp add: eval_defs)

theorem bucket_order_is_input_order_witness:
  "snd (snd (buildPostMap (siteConfig [str ''a.html'', str ''b.html''])
       (siteNet [(str ''posts/a.html'', Response True 200 (categoryDoc ''x'')),
                 (str ''posts/b.html'', Response True 200 (categoryDoc ''x''))]) [1, 0]))
     = snd (snd (buildPostMap (siteConfig [str ''a.html'', str ''b.html''])
       (siteNet [(str ''posts/a.html'', Response True 200 (categoryDoc ''x'')),
                 (str ''posts/b.html'', Response True 200 (categoryDoc ''x''))]) [0, 1])) \<and>
   snd (snd (buildPostMap (siteConfig [str ''a.html'', str ''b.html''])
       (siteNet [(str ''posts/a.html'', Response True 200 (categoryDoc ''x'')),
                 (str ''posts/b.html'', Response True 200 (categoryDoc ''x''))]) [1, 0]))
     = Fulfilled [(str ''x'', [threeArticles 0, threeArticles 1])]"
proof -
  let ?cfg = "siteConfig [str ''a.html'', str ''b.html'']"
  let ?net = "siteNet [(str ''posts/a.html'', Response True 200 (categoryDoc ''x'')),
                 (str ''posts/b.html'', Response True 200 (categoryDoc ''x''))]"
  have s1: "{0..<length (postFiles ?cfg)} \<subseteq> set [1, 0]"
    by (auto simp: siteConfig_def)
  have ok: "\<forall>f\<in>set (postFiles ?cfg). \<forall>e. ?net (postsDir ?cfg @ f) \<noteq> FetchRejects e"
    by (simp add: siteConfig_def siteNet_def str_def)
  have up: "[0..<length (postFiles ?cfg)] = [0, 1]"
    by (simp add: siteConfig_def upt_rec)
  show ?thesis
    using bucket_order_is_input_order [OF s1 ok] unfolding up
    by (simp add: eval_defs)
qed

text \<open>
  C3 at a category that names a property of \<^verbatim>\<open>Object.prototype\<close>: the lookup finds the
  inherited function, no bucket is created, and the call of \<^verbatim>\<open>push\<close> throws; the record
  lands in no bucket and the page shows the error.
\<close>

theorem inherited_category_raises:
  "groupByCategory []
     [\<lparr>filename = str ''c.html'', category = str ''constructor'', slug = str ''c'', content = str ''c''\<rparr>]
     = Inl pushNotAFunction \<and>
   snd (snd (buildPostMap (siteConfig [str ''c.html''])
       (siteNet [(str ''posts/c.html'', Response True 200 (categoryDoc ''constructor''))]) [0]))
     = Rejected pushNotAFunction \<and>
   mainContainer (buildAutoIndex (siteConfig [str ''c.html''])
       (siteNet [(str ''posts/c.html'', Response True 200 (categoryDoc ''constructor''))]) [0]
       (emptyPage (Some (ChildNodes []))))
     = Some (InnerHTML (errorMarkup pushNotAFunction))"
  by (simp add: eval_defs buildAutoIndex_def emptyPage_def)

text \<open>
  For every other list of records the grouping is as C3 says: each record is in exactly
  one bucket, the one whose key equals its category.
\<close>

lemma grouping_of_safe_categories:
  assumes "\<forall>a\<in>set as. category a \<notin> set objectPrototypeKeys"
  shows "\<exists>m. groupByCategory [] as = Inr m \<and> distinct (map fst m) \<and>
           fst ` set m = category ` set as \<and>
           (\<forall>k. bucketOf m k = filter (\<lambda>a. category a = k) as) \<and>
           (\<forall>a\<in>set as. \<forall>k b. (k, b) \<in> set m \<and> a \<in> set b \<longleftrightarrow> k = category a \<and> b = bucketOf m k)"
proof -
  from assms groupByCategory_succeeds_iff [of "[]" as]
  obtain m where m: "groupByCategory [] as = Inr m" by auto
  note g = grouped_from_empty [OF m]
  have "(k, b) \<in> set m \<and> a \<in> set b \<longleftrightarrow> k = category a \<and> b = bucketOf m k"
    if "a \<in> set as" for a k b
    using that in_bucket [OF g(3), of k b] g(1) [of k] g(2) by auto
  with m g show ?thesis by blast
qed

text \<open>
  C9. Whenever \<^verbatim>\<open>buildPostMap\<close> returns a map, every key of it has a non-empty bucket,
  so that every description node of the rendered list holds at least one link, and there
  is one description node for each term node.
\<close>

theorem no_empty_bucket:
  assumes "snd (snd (buildPostMap cfg net sched)) = Fulfilled m"
  shows "(\<forall>(k, b)\<in>set m. b \<noteq> []) \<and>
         (\<forall>dd\<in>set (descriptionNodes (buildCategoryList cfg m)).
            \<exists>l\<in>set (childNodes dd). tagName l = ''a'') \<and>
         length (descriptionNodes (buildCategoryList cfg m)) = length (termLabels (buildCategoryList cfg m))"
proof -
  from buildPostMap_Fulfilled [OF assms] obtain as where as: "groupByCategory [] as = Inr m" ..
  have 1: "\<forall>(k, b)\<in>set m. b \<noteq> []"
    using buckets_nonempty [OF as] by auto
  have 2: "\<exists>l\<in>set (childNodes dd). tagName l = ''a''"
    if "dd \<in> set (descriptionNodes (buildCategoryList cfg m))" for dd
  proof -
    from that obtain k where k: "k \<in> fst ` set m" and dd: "dd = descriptionNode cfg (bucketOf m k)"
      by (auto simp: descriptionNodes_buildCategoryList)
    from k in_bucket [OF grouped_from_empty(3) [OF as]] have "(k, bucketOf m k) \<in> set m" by simp
    then have "bucketOf m k \<noteq> []" by (rule buckets_nonempty [OF as])
    then show ?thesis unfolding dd by (rule description_has_link)
  qed
  show ?thesis
    using 1 2 by (simp add: descriptionNodes_buildCategoryList termLabels_buildCategoryList)
qed

theorem no_empty_bucket_witness:
  "snd (snd (buildPostMap (siteConfig [str ''a.html'', str ''b.html''])
       (siteNet [(str ''posts/a.html'', Response True 200 (categoryDoc ''x'')),
                 (str ''posts/b.html'', Response True 200 (categoryDoc ''x''))]) [1, 0]))
     = Fulfilled [(str ''x'', [threeArticles 0, threeArticles 1])] \<and>
   length (descriptionNodes (buildCategoryList (siteConfig [str ''a.html'', str ''b.html''])
     [(str ''x'', [threeArticles 0, threeArticles 1])])) = 1"
proof -
  have h: "snd (snd (buildPostMap (siteConfig [str ''a.html'', str ''b.html''])
       (siteNet [(str ''posts/a.html'', Response True 200 (categoryDoc ''x'')),
                 (str ''posts/b.html'', Response True 200 (categoryDoc ''x''))]) [1, 0]))
     = Fulfilled [(str ''x'', [threeArticles 0, threeArticles 1])]"
    by (simp add: eval_defs)
  show ?thesis
    using h no_empty_bucket [OF h] by (simp add: termLabels_buildCategoryList)
qed

section \<open>Properties of generateTOC\<close>

text \<open>
  C10. On a page without any \<^verbatim>\<open>h1\<close> heading \<^verbatim>\<open>generateTOC\<close> returns without changing
  the document: no container is created, no id is assigned and no list is rendered. Once
  the document is no longer loading the call changes nothing at all; while it is loading
  the call only registers the listener, and the run from \<^verbatim>\<open>DOMContentLoaded\<close> leaves
  a page without headings as it is.
\<close>

theorem generateTOC_without_headings:
  assumes "querySelectorAll (root doc) ''h1'' = []"
  shows "(readyState doc \<noteq> Loading \<longrightarrow> generateTOC lower doc = Inr doc) \<and>
         (readyState doc = Loading \<longrightarrow> generateTOC lower doc = Inr (doc\<lparr>listening := True\<rparr>)) \<and>
         (\<exists>doc'. generateTOC lower doc = Inr doc' \<and> root doc' = root doc \<and>
            detached doc' = detached doc \<and> nextNode doc' = nextNode doc) \<and>
         domContentLoaded lower doc = Inr (doc\<lparr>readyState := Interactive\<rparr>)"
  using assms by (simp add: generateTOC_def domContentLoaded_def Let_def)

theorem generateTOC_without_headings_witness:
  "querySelectorAll (root (tocPage [Elem 3 ''p'' [(''id'', str ''intro'')] [CharData (str ''Hello'')]])) ''h1'' = [] \<and>
   generateTOC asciiLower (tocPage [Elem 3 ''p'' [(''id'', str ''intro'')] [CharData (str ''Hello'')]])
     = Inr (tocPage [Elem 3 ''p'' [(''id'', str ''intro'')] [CharData (str ''Hello'')]])"
proof -
  have h: "querySelectorAll (root (tocPage [Elem 3 ''p'' [(''id'', str ''intro'')] [CharData (str ''Hello'')]])) ''h1'' = []"
    by (simp add: querySelectorAll_def tocPage_def)
  have r: "readyState (tocPage [Elem 3 ''p'' [(''id'', str ''intro'')] [CharData (str ''Hello'')]]) \<noteq> Loading"
    by (simp add: tocPage_def)
  from generateTOC_without_headings [OF h, of asciiLower, THEN conjunct1, THEN mp, OF r] h
  show ?thesis by simp
qed

text \<open>
  With a heading the document does change: the container becomes the first child of the
  body, the heading gets the id made from its text, and the list links to it.
\<close>

lemma generateTOC_with_heading:
  "generateTOC asciiLower (tocPage [Elem 3 ''h1'' [] [CharData (str ''Hello World'')]]) =
     Inr \<lparr>readyState = Complete, listening = False,
          root = Elem 0 ''html'' []
            [Elem 1 ''head'' [] [],
             Elem 2 ''body'' []
               [Elem 100 ''div'' [(''id'', str ''toc-container''), (''class'', str ''auto-toc'')]
                  [Elem 101 ''h2'' [(''class'', str ''toc-title'')] [CharData (str ''Table of Content'')],
                   Elem 102 ''ul'' []
                     [Elem 103 ''li'' [(''class'', str ''toc-level-1'')]
                        [Elem 104 ''a'' [(''href'', str ''#hello-world'')] [CharData (str ''Hello World'')]]]],
                Elem 3 ''h1'' [(''id'', str ''hello-world'')] [CharData (str ''Hello World'')]]],
          detached = [], nextNode = 105\<rparr>"
  by code_simp

section \<open>The description nodes of the rendered list\<close>

lemma sectionsOf_rendered:
  "sectionsOf (concat (map (\<lambda>k. [termNode k, descriptionNode cfg (f k)]) ks))
     = map (\<lambda>k. (k, descriptionNode cfg (f k))) ks"
proof (induction ks)
  case Nil
  show ?case by simp
next
  case (Cons k ks)
  have "tagName (termNode k) = ''dt''" "tagName (descriptionNode cfg (f k)) = ''dd''"
    by (simp_all add: termNode_def descriptionNode_def)
  with Cons show ?case by (simp add: textContent_termNode)
qed

lemma sections_buildCategoryList:
  "sectionsOf (childNodes (buildCategoryList cfg postMap)) =
     map (\<lambda>k. (k, descriptionNode cfg (bucketOf postMap k))) (sort (map fst postMap))"
  by (simp add: buildCategoryList_def sectionsOf_rendered)

lemma childNodes_buildCategoryList_length:
  "length (childNodes (buildCategoryList cfg postMap)) = 2 * length postMap"
proof -
  have "length (concat (map (\<lambda>k. [termNode k, descriptionNode cfg (f k)]) ks)) = 2 * length ks" for f ks
    by (induction ks) simp_all
  then show ?thesis by (simp add: buildCategoryList_def)
qed

text \<open>
  C7. The list that \<^verbatim>\<open>buildCategoryList\<close> renders has, for each key in sorted order, the
  term node of the key followed by the description node of the bucket of that key, and
  nothing else. For a bucket of \<open>n \<ge> 1\<close> articles that description node holds the \<open>n\<close>
  links in bucket order, joined by the text node \<^verbatim>\<open>"; "\<close>: exactly \<open>n - 1\<close> separators, the
  last child being the last link. The label of a link is the article's slug and its target
  is \<^verbatim>\<open>postsDir + filename\<close>.
\<close>

theorem description_node_links:
  assumes "articles \<noteq> []"
  shows "descriptionNode cfg articles =
           Element ''dd'' [(''class'', str ''postDd'')]
             (joinWith (Text (str ''; '')) (map (articleLink cfg) articles)) \<and>
         length (filter (\<lambda>k. k = Text (str ''; '')) (childNodes (descriptionNode cfg articles)))
           = length articles - 1 \<and>
         length (filter (\<lambda>k. tagName k = ''a'') (childNodes (descriptionNode cfg articles)))
           = length articles \<and>
         last (childNodes (descriptionNode cfg articles)) = articleLink cfg (last articles) \<and>
         (\<forall>a. tagName (articleLink cfg a) = ''a'' \<and> textContent (articleLink cfg a) = slug a \<and>
              getAttribute (articleLink cfg a) ''href'' = Some (postsDir cfg @ filename a)) \<and>
         (\<forall>postMap. sectionsOf (childNodes (buildCategoryList cfg postMap)) =
              map (\<lambda>k. (k, descriptionNode cfg (bucketOf postMap k))) (sort (map fst postMap)) \<and>
            length (childNodes (buildCategoryList cfg postMap)) = 2 * length postMap) \<and>
         (\<forall>postMap k. distinct (map fst postMap) \<and> (k, articles) \<in> set postMap \<longrightarrow>
            (k, Element ''dd'' [(''class'', str ''postDd'')]
                  (joinWith (Text (str ''; '')) (map (articleLink cfg) articles)))
              \<in> set (sectionsOf (childNodes (buildCategoryList cfg postMap))))"
proof -
  note d = description_node_joined [OF assms, of cfg]
  have tie: "(k, Element ''dd'' [(''class'', str ''postDd'')]
                  (joinWith (Text (str ''; '')) (map (articleLink cfg) articles)))
              \<in> set (sectionsOf (childNodes (buildCategoryList cfg postMap)))"
    if "distinct (map fst postMap)" "(k, articles) \<in> set postMap" for postMap k
  proof -
    from that in_bucket [of postMap k articles]
    have k: "k \<in> fst ` set postMap" and b: "bucketOf postMap k = articles" by auto
    from k have "(k, descriptionNode cfg (bucketOf postMap k))
        \<in> set (sectionsOf (childNodes (buildCategoryList cfg postMap)))"
      unfolding sections_buildCategoryList by auto
    with b d show ?thesis by simp
  qed
  have g: "\<forall>postMap. sectionsOf (childNodes (buildCategoryList cfg postMap)) =
              map (\<lambda>k. (k, descriptionNode cfg (bucketOf postMap k))) (sort (map fst postMap)) \<and>
            length (childNodes (buildCategoryList cfg postMap)) = 2 * length postMap"
    by (simp add: sections_buildCategoryList childNodes_buildCategoryList_length)
  have t: "\<forall>postMap k. distinct (map fst postMap) \<and> (k, articles) \<in> set postMap \<longrightarrow>
            (k, Element ''dd'' [(''class'', str ''postDd'')]
                  (joinWith (Text (str ''; '')) (map (articleLink cfg) articles)))
              \<in> set (sectionsOf (childNodes (buildCategoryList cfg postMap)))"
    using tie by blast
  from d g t show ?thesis by (elim conjE) (intro conjI; assumption)
qed

theorem description_node_links_witness:
  "sectionsOf (childNodes (buildCategoryList (siteConfig [])
       [(str ''y'', [threeArticles 3]), (str ''x'', map threeArticles [0, 1, 2])])) =
     [(str ''x'', Element ''dd'' [(''class'', str ''postDd'')]
        [articleLink (siteConfig []) (threeArticles 0), Text (str ''; ''),
         articleLink (siteConfig []) (threeArticles 1), Text (str ''; ''),
         articleLink (siteConfig []) (threeArticles 2)]),
      (str ''y'', Element ''dd'' [(''class'', str ''postDd'')]
        [articleLink (siteConfig []) (threeArticles 3)])] \<and>
   length (filter (\<lambda>k. k = Text (str ''; ''))
     (childNodes (descriptionNode (siteConfig []) (map threeArticles [0, 1, 2])))) = 2 \<and>
   (str ''x'', Element ''dd'' [(''class'', str ''postDd'')]
        [articleLink (siteConfig []) (threeArticles 0), Text (str ''; ''),
         articleLink (siteConfig []) (threeArticles 1), Text (str ''; ''),
         articleLink (siteConfig []) (threeArticles 2)])
     \<in> set (sectionsOf (childNodes (buildCategoryList (siteConfig [])
       [(str ''y'', [threeArticles 3]), (str ''x'', map threeArticles [0, 1, 2])])))"
proof -
  let ?cfg = "siteConfig []"
  let ?as = "map threeArticles [0, 1, 2]"
  let ?pm = "[(str ''y'', [threeArticles 3]), (str ''x'', ?as)]"
  have ne: "?as \<noteq> []" by simp
  have ne3: "[threeArticles 3] \<noteq> []" by simp
  have pm: "distinct (map fst ?pm) \<and> (str ''x'', ?as) \<in> set ?pm"
    by (simp add: str_def)
  note t = description_node_links [OF ne, of ?cfg]
  note t3 = description_node_links [OF ne3, of ?cfg]
  have dx: "descriptionNode ?cfg ?as = Element ''dd'' [(''class'', str ''postDd'')]
        [articleLink ?cfg (threeArticles 0), Text (str ''; ''),
         articleLink ?cfg (threeArticles 1), Text (str ''; ''),
         articleLink ?cfg (threeArticles 2)]"
    using t [THEN conjunct1] by simp
  have dy: "descriptionNode ?cfg [threeArticles 3] = Element ''dd'' [(''class'', str ''postDd'')]
        [articleLink ?cfg (threeArticles 3)]"
    using t3 [THEN conjunct1] by simp
  have srt: "sort (map fst ?pm) = [str ''x'', str ''y'']" by (simp add: str_def)
  have bx: "bucketOf ?pm (str ''x'') = ?as" and by': "bucketOf ?pm (str ''y'') = [threeArticles 3]"
    by (simp_all add: bucketOf_def str_def)
  have 1: "sectionsOf (childNodes (buildCategoryList ?cfg ?pm)) =
      [(str ''x'', descriptionNode ?cfg ?as), (str ''y'', descriptionNode ?cfg [threeArticles 3])]"
    using t [THEN conjunct2, THEN conjunct2, THEN conjunct2, THEN conjunct2, THEN conjunct2,
        THEN conjunct1, THEN spec, of ?pm, THEN conjunct1]
    unfolding srt using bx by' by simp
  have 2: "length (filter (\<lambda>k. k = Text (str ''; '')) (childNodes (descriptionNode ?cfg ?as))) = 2"
    using t [THEN conjunct2, THEN conjunct1] by simp
  have 3: "(str ''x'', Element ''dd'' [(''class'', str ''postDd'')]
        (joinWith (Text (str ''; '')) (map (articleLink ?cfg) ?as)))
      \<in> set (sectionsOf (childNodes (buildCategoryList ?cfg ?pm)))"
    using t [THEN conjunct2, THEN conjunct2, THEN conjunct2, THEN conjunct2, THEN conjunct2,
        THEN conjunct2, THEN spec, THEN spec, THEN mp, OF pm] .
  from 1 2 3 show ?thesis unfolding dx dy by simp
qed

end
